theory Spec2Isabelle
  imports Main
begin

section \<open>Strings as Python uses them in \<open>install.py\<close>\<close>

text \<open>
  The characters that the source names in its regular expression and in its path
  tests. A Python \<open>str\<close> is modelled as a \<open>string\<close>; every character the
  code inspects is ASCII.
\<close>

definition squote :: char where
  "squote = CHR 0x27"

definition dquote :: char where
  "dquote = CHR 0x22"

definition newline :: char where
  "newline = CHR 0x0A"

definition is_upper :: "char \<Rightarrow> bool" where
  "is_upper c = (let n = (of_char c :: nat) in 65 \<le> n \<and> n \<le> 90)"

definition is_lower :: "char \<Rightarrow> bool" where
  "is_lower c = (let n = (of_char c :: nat) in 97 \<le> n \<and> n \<le> 122)"

definition is_digit :: "char \<Rightarrow> bool" where
  "is_digit c = (let n = (of_char c :: nat) in 48 \<le> n \<and> n \<le> 57)"

text \<open>
  \<open>str.lower()\<close> on the ASCII range: an upper-case letter has bit 5 clear, and adding
  32 sets it.
\<close>

definition lower_char :: "char \<Rightarrow> char" where
  "lower_char c =
     (if is_upper c then
        (case c of Char b0 b1 b2 b3 b4 b5 b6 b7 \<Rightarrow> Char b0 b1 b2 b3 b4 True b6 b7)
      else c)"

definition lower :: "string \<Rightarrow> string" where
  "lower s = map lower_char s"

text \<open>\<open>s.startswith(p)\<close>.\<close>

fun startswith :: "string \<Rightarrow> string \<Rightarrow> bool" where
  "startswith s [] = True"
| "startswith [] (p # ps) = False"
| "startswith (c # cs) (p # ps) = (c = p \<and> startswith cs ps)"

text \<open>
  \<open>s.split(sep)\<close> for a one-character separator: the pieces between the
  separators, empty pieces kept, so that the empty string splits into one empty piece.
\<close>

fun split_on :: "char \<Rightarrow> string \<Rightarrow> string list" where
  "split_on sep [] = [[]]"
| "split_on sep (c # cs) =
     (if c = sep then [] # split_on sep cs
      else (case split_on sep cs of
              [] \<Rightarrow> [[c]]
            | p # ps \<Rightarrow> (c # p) # ps))"

text \<open>\<open>sep.join(parts)\<close>.\<close>

fun join :: "string \<Rightarrow> string list \<Rightarrow> string" where
  "join sep [] = []"
| "join sep [p] = p"
| "join sep (p # q # ps) = p @ sep @ join sep (q # ps)"

section \<open>The regular expression of the dependency scan\<close>

text \<open>
  \<open>re.match\<close> is a backtracking matcher: it is anchored at the start of the line,
  tries the greedy choice first and falls back to the shorter one when the rest of
  the pattern fails. The pattern of \<open>get_modules_subworkflows_to_install\<close> only
  repeats single character classes, so \<open>Star\<close> takes a class.
\<close>

datatype re =
    Cls "char \<Rightarrow> bool"
  | Star "char \<Rightarrow> bool"
  | Seq re re
  | Alt re re
  | Opt re
  | Group nat re

type_synonym groups = "nat \<Rightarrow> string"

fun re_run :: "re \<Rightarrow> string \<Rightarrow> groups \<Rightarrow> (string \<Rightarrow> groups \<Rightarrow> groups option) \<Rightarrow> groups option" where
  "re_run (Cls p) [] g k = None"
| "re_run (Cls p) (c # cs) g k = (if p c then k cs g else None)"
| "re_run (Star p) [] g k = k [] g"
| "re_run (Star p) (c # cs) g k =
     (if p c then (case re_run (Star p) cs g k of Some r \<Rightarrow> Some r | None \<Rightarrow> k (c # cs) g)
      else k (c # cs) g)"
| "re_run (Seq a b) s g k = re_run a s g (\<lambda>s' g'. re_run b s' g' k)"
| "re_run (Alt a b) s g k =
     (case re_run a s g k of Some r \<Rightarrow> Some r | None \<Rightarrow> re_run b s g k)"
| "re_run (Opt a) s g k =
     (case re_run a s g k of Some r \<Rightarrow> Some r | None \<Rightarrow> k s g)"
| "re_run (Group i a) s g k =
     re_run a s g (\<lambda>s' g'. k s' (g'(i := take (length s - length s') s)))"

definition lit :: "char \<Rightarrow> re" where
  "lit c = Cls (\<lambda>x. x = c)"

fun lits :: "string \<Rightarrow> re \<Rightarrow> re" where
  "lits [] r = r"
| "lits (c # cs) r = Seq (lit c) (lits cs r)"

definition is_space :: "char \<Rightarrow> bool" where
  "is_space c = (c = CHR '' '')"

text \<open>The class \<open>[a-zA-Z\_0-9]\<close>.\<close>

definition is_word :: "char \<Rightarrow> bool" where
  "is_word c = (is_lower c \<or> is_upper c \<or> c = CHR ''_'' \<or> is_digit c)"

text \<open>\<open>.\<close> matches every character but the newline.\<close>

definition is_dot :: "char \<Rightarrow> bool" where
  "is_dot c = (c \<noteq> newline)"

definition quote :: re where
  "quote = Alt (lit squote) (lit dquote)"

text \<open>
  The pattern, piece by piece as the source writes it:
  \<^verbatim>\<open>include(?: *{ *)([a-zA-Z\_0-9]*)(?: *as *)?(?:[a-zA-Z\_0-9]*)?(?: *})(?: *from *)(?:'|\")(.*)(?:'|\")\<close>
\<close>

definition include_regex :: re where
  "include_regex =
     lits ''include''
       (Seq (Seq (Star is_space) (Seq (lit CHR ''{'') (Star is_space)))
       (Seq (Group 1 (Star is_word))
       (Seq (Opt (Seq (Star is_space) (lits ''as'' (Star is_space))))
       (Seq (Opt (Star is_word))
       (Seq (Seq (Star is_space) (lit CHR ''}''))
       (Seq (Seq (Star is_space) (lits ''from'' (Star is_space)))
       (Seq quote
       (Seq (Group 2 (Star is_dot))
            quote))))))))"

text \<open>
  \<open>regex.match(line)\<close> followed by \<open>match.groups()\<close>: the two captured groups of
  the first match in backtracking order, or \<open>None\<close>. Both groups take part in
  every match, so \<open>len(match.groups()) == 2\<close> holds whenever there is a match.
\<close>

definition re_match :: "string \<Rightarrow> (string \<times> string) option" where
  "re_match line =
     (case re_run include_regex line (\<lambda>_. []) (\<lambda>_ g. Some g) of
        None \<Rightarrow> None
      | Some g \<Rightarrow> Some (g 1, g 2))"

section \<open>The dependency scan\<close>

text \<open>
  \<open>get_modules_subworkflows_to_install\<close>, on the lines of \<open>main.nf\<close>: the loop
  appends to the two lists in the order of the lines.
\<close>

fun scan_lines :: "string list \<Rightarrow> string list \<Rightarrow> string list \<Rightarrow> string list \<times> string list" where
  "scan_lines [] modules subworkflows = (modules, subworkflows)"
| "scan_lines (line # rest) modules subworkflows =
     (case re_match line of
        None \<Rightarrow> scan_lines rest modules subworkflows
      | Some (name, link) \<Rightarrow>
          if startswith link ''../../../'' then
            scan_lines rest (modules @ [join ''/'' (split_on CHR ''_'' (lower name))]) subworkflows
          else if startswith link ''../'' then
            scan_lines rest modules (subworkflows @ [lower name])
          else scan_lines rest modules subworkflows)"

definition get_modules_subworkflows_to_install :: "string list \<Rightarrow> string list \<times> string list" where
  "get_modules_subworkflows_to_install main_nf = scan_lines main_nf [] []"

section \<open>Paths\<close>

text \<open>\<open>os.path.join(a, b)\<close> on POSIX: an absolute \<open>b\<close> replaces \<open>a\<close>.\<close>

definition os_path_join :: "string \<Rightarrow> string \<Rightarrow> string" where
  "os_path_join a b =
     (if startswith b ''/'' then b
      else if a = [] \<or> last a = CHR ''/'' then a @ b
      else a @ ''/'' @ b)"

text \<open>
  \<open>Path(p).parts\<close> on POSIX: the root when the path is absolute (two leading slashes,
  and only two, are kept as they are), then the components between the slashes, the
  empty ones and \<open>.\<close> left out.
\<close>

definition path_parts :: "string \<Rightarrow> string list" where
  "path_parts p =
     (if startswith p ''//'' \<and> \<not> startswith p ''///'' then [''//'']
      else if startswith p ''/'' then [''/'']
      else [])
     @ filter (\<lambda>c. c \<noteq> [] \<and> c \<noteq> ''.'') (split_on CHR ''/'' p)"

section \<open>The lockfile, the disk and the installer\<close>

type_synonym version = string

text \<open>
  One entry of the \<open>subworkflows\<close> section of \<open>modules.json\<close>. The recorded
  version is whatever the caller hands to the update, which for the short-circuit is the
  value read back from the file (\<open>None\<close> or a revision).
\<close>

record entry =
  git_sha :: "version option"
  entry_installed_by :: "string set"

type_synonym lockfile = "string \<rightharpoonup> entry"

text \<open>
  A component directory on disk, by its path: the lines of its \<open>main.nf\<close>, or
  \<open>None\<close> when the directory has no such file.
\<close>

type_synonym tree = "string list option"

type_synonym disk = "string \<rightharpoonup> tree"

datatype error = FileNotFoundError | IndexError

text \<open>
  The calls the installer makes on its collaborators and what they answered, in the
  order in which they happen.
\<close>

datatype event =
    EvCurrentVersion string "version option"
  | EvPresenceCheck string bool
  | EvUpdate string "version option" string
  | EvVersionResolved string "version option"
  | EvRemove string bool
  | EvCleanEntry string "string set option"
  | EvMaterialize string version bool
  | EvModuleInstall string bool bool "string option" string
  | EvGuidance string
  | EvUpdateSubworkflow string version string "string set option"

text \<open>The fields of \<open>SubworkflowInstall\<close> that \<open>install\<close> reads or writes.\<close>

record installer =
  component_type :: string
  force :: bool
  prompt :: bool
  sha :: "string option"
  installed_by :: string

text \<open>
  The collaborators whose code is outside \<open>install.py\<close>, as parameters:
  \<open>dir_ok\<close> is \<open>self.dir is not None and os.path.exists(self.dir)\<close>,
  \<open>install_folder\<close> is \<open>os.path.join(self.dir, "subworkflows", repo_path)\<close>,
  \<open>registry\<close> is the file tree the remote supplies for a component at a revision
  (\<open>None\<close> when the fetch fails) and \<open>rmtree_ok\<close> tells whether
  \<open>shutil.rmtree\<close> succeeds on an existing directory.
\<close>

record env =
  dir_ok :: bool
  install_folder :: string
  verify_sha :: "bool \<Rightarrow> string option \<Rightarrow> bool"
  collect_and_verify_name :: "string \<Rightarrow> string option"
  check_up_to_date :: "disk \<Rightarrow> lockfile \<Rightarrow> lockfile"
  get_version :: "string \<Rightarrow> string option \<Rightarrow> bool \<Rightarrow> version option \<Rightarrow> version option"
  rmtree_ok :: "string \<Rightarrow> bool"
  registry :: "string \<Rightarrow> version \<Rightarrow> tree option"

text \<open>
  The installer object, the persisted \<open>modules.json\<close>, the component directories
  and the trace of calls. The \<open>ModulesJson\<close> object of one \<open>install\<close> call is a
  local value of that call, not part of the state.
\<close>

record state =
  self :: installer
  modules_json_file :: lockfile
  disk :: disk
  trace :: "event list"

datatype pyarg = PyFalse | PyStr string

text \<open>\<open>bool(installed_by)\<close>: \<open>False\<close> and the empty string are falsy.\<close>

fun truthy :: "pyarg \<Rightarrow> bool" where
  "truthy PyFalse = False"
| "truthy (PyStr s) = (s \<noteq> [])"

text \<open>
  \<open>SubworkflowInstall.__init__\<close>: the base class is given the component type
  \<open>"subworkflows"\<close>, which becomes \<open>self.installed_by\<close> when the argument is falsy.
\<close>

definition init :: "bool \<Rightarrow> bool \<Rightarrow> string option \<Rightarrow> pyarg \<Rightarrow> installer" where
  "init force_arg prompt_arg sha_arg installed_by_arg =
     (let ct = ''subworkflows'' in
      \<lparr> component_type = ct, force = force_arg, prompt = prompt_arg, sha = sha_arg,
        installed_by = (case installed_by_arg of
                          PyStr s \<Rightarrow> if truthy installed_by_arg then s else ct
                        | PyFalse \<Rightarrow> ct) \<rparr>)"

definition log :: "event list \<Rightarrow> state \<Rightarrow> state" where
  "log es st = st\<lparr>trace := trace st @ es\<rparr>"

section \<open>The helpers of \<open>install\<close>\<close>

text \<open>
  Modelled from the spec: \<open>ModulesJson.get_subworkflow_version\<close> is not in
  \<open>install.py\<close>; section 4.1 \<open>getVersion\<close> gives the recorded version, or absent
  when the component was never installed.
\<close>

definition get_subworkflow_version :: "lockfile \<Rightarrow> string \<Rightarrow> version option" where
  "get_subworkflow_version mj n = (case mj n of None \<Rightarrow> None | Some e \<Rightarrow> git_sha e)"

text \<open>
  Modelled from the spec: \<open>check_component_installed\<close> is not in \<open>install.py\<close>. By
  step 5 of section 4.5 and the message of line 82 its answer is falsy exactly when the
  files exist on disk at a recorded version and \<open>force\<close> is not set. The question that
  \<open>prompt\<close> may put to the user is outside the spec and is left out.
\<close>

definition check_component_installed :: "version option \<Rightarrow> bool \<Rightarrow> bool \<Rightarrow> bool" where
  "check_component_installed current_version dir_exists force_flag =
     (\<not> ((current_version \<noteq> None \<and> dir_exists) \<and> \<not> force_flag))"

text \<open>
  \<open>clear_component_dir\<close> of the base class, as its sibling \<open>clear_subworkflow_dir\<close>
  (lines 147 to 155) does it: \<open>shutil.rmtree\<close>, \<open>True\<close> when it went through and
  \<open>False\<close> on \<open>OSError\<close>, which a missing directory raises too.
\<close>

definition clear_component_dir :: "env \<Rightarrow> string \<Rightarrow> disk \<Rightarrow> bool \<times> disk" where
  "clear_component_dir E subworkflow_dir d =
     (if d subworkflow_dir \<noteq> None \<and> rmtree_ok E subworkflow_dir
      then (True, d(subworkflow_dir := None))
      else (False, d))"

text \<open>
  Modelled from the spec: \<open>clean_modules_json\<close> is not in \<open>install.py\<close>. By step 6
  of section 4.5 it takes the entry out of the \<open>ModulesJson\<close> object and hands back
  its referrer set; by section 4.1 nothing is written to the file before a checkpoint.
\<close>

definition clean_modules_json :: "string \<Rightarrow> lockfile \<Rightarrow> string set option \<times> lockfile" where
  "clean_modules_json n mj =
     (case mj n of
        None \<Rightarrow> (None, mj)
      | Some e \<Rightarrow> (Some (entry_installed_by e), mj(n := None)))"

text \<open>
  Modelled from the spec: \<open>install_component_files\<close> of the base class is not in
  \<open>install.py\<close>. By section 4.4 \<open>materialize\<close> writes the whole tree of the
  revision into the component directory, or fails and writes nothing.
\<close>

definition install_component_files :: "env \<Rightarrow> string \<Rightarrow> version \<Rightarrow> string \<Rightarrow> disk \<Rightarrow> bool \<times> disk" where
  "install_component_files E n v subworkflow_dir d =
     (case registry E n v of
        None \<Rightarrow> (False, d)
      | Some t \<Rightarrow> (True, d(subworkflow_dir \<mapsto> t)))"

text \<open>
  Modelled from the spec: \<open>ModulesJson.update\<close> and
  \<open>ModulesJson.update_subworkflow\<close> are not in \<open>install.py\<close>. By section 4.1
  \<open>updateEntry\<close> sets the version, adds \<open>installedBy\<close> to the referrers of the
  entry, merges the members of \<open>installTrack\<close> when it is supplied, creates the
  entry when it is absent, and the result is flushed to the file.
\<close>

definition update_entry :: "lockfile \<Rightarrow> string \<Rightarrow> version option \<Rightarrow> string \<Rightarrow> string set option \<Rightarrow> lockfile" where
  "update_entry mj n v ib install_track =
     mj(n \<mapsto> \<lparr> git_sha = v,
                entry_installed_by =
                  insert ib ((case mj n of None \<Rightarrow> {} | Some e \<Rightarrow> entry_installed_by e)
                             \<union> (case install_track of None \<Rightarrow> {} | Some t \<Rightarrow> t)) \<rparr>)"

section \<open>\<open>SubworkflowInstall.install\<close> and \<open>install_included_components\<close>\<close>

text \<open>
  The second loop of \<open>install_included_components\<close>: one \<open>ModuleInstall\<close> per
  module, built from the installer's own \<open>force\<close>, \<open>prompt\<close> and \<open>sha\<close> and
  from the last part of the subworkflow directory, then \<open>install(m, silent=True)\<close>.
  \<open>ModuleInstall\<close> is outside \<open>install.py\<close>; it works on the modules tree and on
  the modules section of \<open>modules.json\<close>, which this state does not hold, so the call
  is recorded with its arguments. \<open>parts[-1]\<close> raises on a path without parts.
\<close>

fun install_modules :: "state \<Rightarrow> string \<Rightarrow> string list \<Rightarrow> error + state" where
  "install_modules st subworkflow_dir [] = Inr st"
| "install_modules st subworkflow_dir (m_install # rest) =
     (case path_parts subworkflow_dir of
        [] \<Rightarrow> Inl IndexError
      | p # ps \<Rightarrow>
          install_modules
            (log [EvModuleInstall m_install (force (self st)) (prompt (self st)) (sha (self st))
                    (last (p # ps))] st)
            subworkflow_dir rest)"

text \<open>
  Lines 95 to 109 of \<open>install\<close>: with \<open>force\<close> set, the presence check is asked
  again; when it answers true the directory is cleared, the answer of
  \<open>clear_component_dir\<close> is dropped, and the entry is taken out of the
  \<open>ModulesJson\<close> object \<open>mj\<close>. The result is \<open>install_track\<close>, the object and
  the state.
\<close>

definition force_remove ::
    "env \<Rightarrow> state \<Rightarrow> string \<Rightarrow> string \<Rightarrow> version option \<Rightarrow> lockfile
       \<Rightarrow> string set option \<times> lockfile \<times> state" where
  "force_remove E st n subworkflow_dir current_version mj =
     (if force (self st) then
        (let again = check_component_installed current_version (disk st subworkflow_dir \<noteq> None)
                       (force (self st));
             st1 = log [EvPresenceCheck n again] st
         in if again then
              (let (removed, d) = clear_component_dir E subworkflow_dir (disk st1);
                   st2 = log [EvRemove n removed] (st1\<lparr>disk := d\<rparr>);
                   (install_track, mj') = clean_modules_json n mj
               in (install_track, mj', log [EvCleanEntry n install_track] st2))
            else (None, mj, st1))
      else (None, mj, st))"

text \<open>
  Lines 42 to 92 of \<open>install\<close>, up to the resolved version: \<open>Inl\<close> is a
  \<open>return False\<close> with the state it leaves, \<open>Inr\<close> carries on with the verified
  name, the subworkflow directory, the recorded version, the \<open>ModulesJson\<close> object
  after \<open>check_up_to_date\<close>, the resolved version and the state.
\<close>

definition begin_install ::
    "env \<Rightarrow> state \<Rightarrow> string
       \<Rightarrow> state + (string \<times> string \<times> version option \<times> lockfile \<times> version \<times> state)" where
  "begin_install E st subworkflow =
     (if \<not> dir_ok E then Inl st
      else
        let mj = check_up_to_date E (disk st) (modules_json_file st) in
        if \<not> verify_sha E (prompt (self st)) (sha (self st)) then Inl st
        else
          (case collect_and_verify_name E subworkflow of
             None \<Rightarrow> Inl st
           | Some n \<Rightarrow>
               if n = [] then Inl st
               else
                 let current_version = get_subworkflow_version mj n;
                     st1 = log [EvCurrentVersion n current_version] st;
                     subworkflow_dir = os_path_join (install_folder E) n;
                     present = check_component_installed current_version
                                 (disk st1 subworkflow_dir \<noteq> None) (force (self st1));
                     st2 = log [EvPresenceCheck n present] st1
                 in
                 if \<not> present then
                   Inl (log [EvUpdate n current_version (installed_by (self st2))]
                          (st2\<lparr>modules_json_file :=
                                 update_entry (modules_json_file st2) n current_version
                                   (installed_by (self st2)) None\<rparr>))
                 else
                   let resolved = get_version E n (sha (self st2)) (prompt (self st2)) current_version;
                       st3 = log [EvVersionResolved n resolved] st2
                   in
                   (case resolved of
                      None \<Rightarrow> Inl st3
                    | Some version \<Rightarrow>
                        if version = [] then Inl st3
                        else Inr (n, subworkflow_dir, current_version, mj, version, st3))))"

text \<open>
  Lines 114 to 116: the download, after the forced removal. The answer is whether the
  files are there, \<open>install_track\<close> and the state.
\<close>

definition download ::
    "env \<Rightarrow> state \<Rightarrow> string \<Rightarrow> string \<Rightarrow> version option \<Rightarrow> lockfile \<Rightarrow> version
       \<Rightarrow> bool \<times> string set option \<times> state" where
  "download E st n subworkflow_dir current_version mj version =
     (let (install_track, mj', st4) = force_remove E st n subworkflow_dir current_version mj;
          (fetched, d) = install_component_files E n version subworkflow_dir (disk st4)
      in (fetched, install_track, log [EvMaterialize n version fetched] (st4\<lparr>disk := d\<rparr>)))"

text \<open>
  Lines 121 to 134: the include statement unless \<open>silent\<close>, then
  \<open>modules_json.load()\<close>, which reads the file again, and \<open>update_subworkflow\<close>.
\<close>

definition finish_install :: "state \<Rightarrow> string \<Rightarrow> version \<Rightarrow> string set option \<Rightarrow> bool \<Rightarrow> state" where
  "finish_install st n version install_track silent =
     (let st1 = (if \<not> silent then log [EvGuidance n] st else st) in
      log [EvUpdateSubworkflow n version (installed_by (self st1)) install_track]
        (st1\<lparr>modules_json_file :=
               update_entry (modules_json_file st1) n (Some version)
                 (installed_by (self st1)) install_track\<rparr>))"

text \<open>
  The recursion of \<open>install\<close> through \<open>install_included_components\<close> need not end
  (two subworkflows that include each other, with \<open>force\<close> set), so the functions take
  fuel: \<open>None\<close> says that the fuel ran out, \<open>Some (Inl e)\<close> that the call raised
  \<open>e\<close>, \<open>Some (Inr r)\<close> that it returned \<open>r\<close>. The first loop of
  \<open>install_included_components\<close> is \<open>install_subworkflows\<close>; \<open>open\<close> raises when
  the directory or its \<open>main.nf\<close> is missing.
\<close>

function (sequential) install :: "nat \<Rightarrow> env \<Rightarrow> state \<Rightarrow> string \<Rightarrow> bool \<Rightarrow> (error + bool \<times> state) option"
  and install_included_components :: "nat \<Rightarrow> env \<Rightarrow> state \<Rightarrow> string \<Rightarrow> (error + state) option"
  and install_subworkflows :: "nat \<Rightarrow> env \<Rightarrow> state \<Rightarrow> string \<Rightarrow> string list \<Rightarrow> (error + state) option"
where
  "install 0 E st subworkflow silent = None"
| "install (Suc k) E st subworkflow silent =
     (case begin_install E st subworkflow of
        Inl st' \<Rightarrow> Some (Inr (False, st'))
      | Inr (n, subworkflow_dir, current_version, mj, version, st3) \<Rightarrow>
          (case download E st3 n subworkflow_dir current_version mj version of
             (fetched, install_track, st5) \<Rightarrow>
               if \<not> fetched then Some (Inr (False, st5))
               else
                 (case install_included_components k E st5 subworkflow_dir of
                    None \<Rightarrow> None
                  | Some (Inl e) \<Rightarrow> Some (Inl e)
                  | Some (Inr st6) \<Rightarrow>
                      Some (Inr (True, finish_install st6 n version install_track silent)))))"
| "install_included_components k E st subworkflow_dir =
     (case disk st subworkflow_dir of
        None \<Rightarrow> Some (Inl FileNotFoundError)
      | Some None \<Rightarrow> Some (Inl FileNotFoundError)
      | Some (Some main_nf) \<Rightarrow>
          (case get_modules_subworkflows_to_install main_nf of
             (modules_to_install, subworkflows_to_install) \<Rightarrow>
               (case install_subworkflows k E st subworkflow_dir subworkflows_to_install of
                  None \<Rightarrow> None
                | Some (Inl e) \<Rightarrow> Some (Inl e)
                | Some (Inr st1) \<Rightarrow> Some (install_modules st1 subworkflow_dir modules_to_install))))"
| "install_subworkflows k E st subworkflow_dir [] = Some (Inr st)"
| "install_subworkflows k E st subworkflow_dir (s_install # rest) =
     (case path_parts subworkflow_dir of
        [] \<Rightarrow> Some (Inl IndexError)
      | p # ps \<Rightarrow>
          (case install k E (st\<lparr>self := (self st)\<lparr>installed_by := last (p # ps)\<rparr>\<rparr>) s_install True of
             None \<Rightarrow> None
           | Some (Inl e) \<Rightarrow> Some (Inl e)
           | Some (Inr (r, st1)) \<Rightarrow>
               install_subworkflows k E
                 (st1\<lparr>self := (self st1)\<lparr>installed_by := installed_by (self st)\<rparr>\<rparr>)
                 subworkflow_dir rest))"

  by pat_completeness auto
termination
  by (relation "inv_image (less_than <*lex*> less_than <*lex*> less_than)
       (\<lambda>x. case x of
          Inl (k, E, st, sw, silent) \<Rightarrow> (k, 0::nat, 0::nat)
        | Inr (Inl (k, E, st, d)) \<Rightarrow> (k, 2, 0)
        | Inr (Inr (k, E, st, d, ss)) \<Rightarrow> (k, 1, length ss))") auto

section \<open>What the claims speak about\<close>

text \<open>
  The events a call has added to the trace, and the referrer set that the lockfile
  records for a component (empty when it has no entry).
\<close>

definition new_events :: "state \<Rightarrow> state \<Rightarrow> event list" where
  "new_events st st' = drop (length (trace st)) (trace st')"

definition referrers :: "lockfile \<Rightarrow> string \<Rightarrow> string set" where
  "referrers mj n = (case mj n of None \<Rightarrow> {} | Some e \<Rightarrow> entry_installed_by e)"

fun is_guidance :: "event \<Rightarrow> bool" where
  "is_guidance (EvGuidance n) = True"
| "is_guidance e = False"

fun is_materialize :: "event \<Rightarrow> bool" where
  "is_materialize (EvMaterialize n v ok) = True"
| "is_materialize e = False"

fun is_presence_check :: "event \<Rightarrow> bool" where
  "is_presence_check (EvPresenceCheck n p) = True"
| "is_presence_check e = False"

fun is_version_resolved :: "event \<Rightarrow> bool" where
  "is_version_resolved (EvVersionResolved n v) = True"
| "is_version_resolved e = False"

text \<open>No include statement is announced in these events.\<close>

definition quiet :: "event list \<Rightarrow> bool" where
  "quiet es = (\<forall>e \<in> set es. \<not> is_guidance e)"

text \<open>
  The steps a request takes for its own component \<open>n\<close> before the download: looking
  up the recorded version, the presence checks, resolving the version, clearing the
  directory and taking the entry out of the \<open>ModulesJson\<close> object.
\<close>

fun own_step :: "string \<Rightarrow> event \<Rightarrow> bool" where
  "own_step n (EvCurrentVersion m v) = (m = n)"
| "own_step n (EvPresenceCheck m p) = (m = n)"
| "own_step n (EvVersionResolved m v) = (m = n)"
| "own_step n (EvRemove m ok) = (m = n)"
| "own_step n (EvCleanEntry m t) = (m = n)"
| "own_step n e = False"

text \<open>
  The first of the two steps that the state machine of section 4.5 orders, presence
  check and version resolution, to happen in a list of events.
\<close>

fun first_decision :: "event list \<Rightarrow> event option" where
  "first_decision [] = None"
| "first_decision (e # es) =
     (if is_presence_check e \<or> is_version_resolved e then Some e else first_decision es)"

text \<open>
  The order of the state machine as the spec writes it, \<open>VersionResolved\<close> before
  \<open>PresenceChecked\<close>: the first of the two steps is a version resolution.
\<close>

definition resolved_before_presence :: "event list \<Rightarrow> bool" where
  "resolved_before_presence es =
     (case first_decision es of
        None \<Rightarrow> False
      | Some e \<Rightarrow> is_version_resolved e)"

text \<open>
  The result of a call to \<open>install\<close>, read off: the value returned, the trace and the
  lockfile entry of a component. A call that raised or ran out of fuel has none.
\<close>

definition run_result :: "(error + bool \<times> state) option \<Rightarrow> bool option" where
  "run_result res = (case res of Some (Inr (r, st)) \<Rightarrow> Some r | _ \<Rightarrow> None)"

definition run_trace :: "(error + bool \<times> state) option \<Rightarrow> event list" where
  "run_trace res = (case res of Some (Inr (r, st)) \<Rightarrow> trace st | _ \<Rightarrow> [])"

definition run_entry :: "(error + bool \<times> state) option \<Rightarrow> string \<Rightarrow> entry option" where
  "run_entry res n = (case res of Some (Inr (r, st)) \<Rightarrow> modules_json_file st n | _ \<Rightarrow> None)"

subsection \<open>The dependency scan in the words of section 4.3\<close>

text \<open>
  Lower-casing, by the table of the twenty-six letters: an upper-case letter becomes
  the lower-case letter at the same place, every other character stays.
\<close>

definition ascii_lower :: "char \<Rightarrow> char" where
  "ascii_lower c =
     (case map_of (zip ''ABCDEFGHIJKLMNOPQRSTUVWXYZ'' ''abcdefghijklmnopqrstuvwxyz'') c of
        None \<Rightarrow> c
      | Some l \<Rightarrow> l)"

text \<open>
  The name of a subworkflow dependency is the lower-cased symbol. The name of a module
  dependency is the lower-cased symbol with its underscore-separated parts joined by
  \<open>/\<close>, which is to say with every underscore turned into a \<open>/\<close>.
\<close>

definition subworkflow_dependency_name :: "string \<Rightarrow> string" where
  "subworkflow_dependency_name symbol = map ascii_lower symbol"

definition module_dependency_name :: "string \<Rightarrow> string" where
  "module_dependency_name symbol = map (\<lambda>c. if c = CHR ''_'' then CHR ''/'' else ascii_lower c) symbol"

text \<open>\<open>link\<close> starts with \<open>p\<close>: its first characters, as many as \<open>p\<close> has, are \<open>p\<close>.\<close>

definition begins_with :: "string \<Rightarrow> string \<Rightarrow> bool" where
  "begins_with p link = (take (length p) link = p)"

text \<open>
  What one line contributes: a module when the quoted path starts with
  \<open>../../../\<close>; a subworkflow when it otherwise starts with \<open>../\<close>; nothing when
  the line does not match the inclusion pattern or the path starts in another way.
\<close>

definition line_modules :: "string \<Rightarrow> string list" where
  "line_modules line =
     (case re_match line of
        None \<Rightarrow> []
      | Some (symbol, link) \<Rightarrow>
          if begins_with ''../../../'' link then [module_dependency_name symbol] else [])"

definition line_subworkflows :: "string \<Rightarrow> string list" where
  "line_subworkflows line =
     (case re_match line of
        None \<Rightarrow> []
      | Some (symbol, link) \<Rightarrow>
          if \<not> begins_with ''../../../'' link \<and> begins_with ''../'' link
          then [subworkflow_dependency_name symbol]
          else [])"

text \<open>
  An include statement in its plain form: the symbol \<open>symbol\<close> between braces, bound
  from the path \<open>link\<close> between single quotes, followed by \<open>rest\<close> (the newline, a
  comment).
\<close>

definition include_statement :: "string \<Rightarrow> string \<Rightarrow> string \<Rightarrow> string" where
  "include_statement symbol link rest =
     ''include { '' @ symbol @ '' } from '' @ [squote] @ link @ [squote] @ rest"

subsection \<open>The dependency installs in the words of section 4.5, step 9\<close>

text \<open>
  For each discovered subworkflow, recurse into \<open>install\<close>, silently, with
  \<open>installedBy\<close> set to \<open>caller\<close> for the time of the call; for each discovered module,
  hand it to the module installer with the installer's own \<open>force\<close>, \<open>prompt\<close> and
  \<open>sha\<close> and with \<open>installedBy\<close> set to \<open>caller\<close>.
\<close>

fun recurse_silently :: "nat \<Rightarrow> env \<Rightarrow> string \<Rightarrow> state \<Rightarrow> string list \<Rightarrow> (error + state) option" where
  "recurse_silently k E caller st [] = Some (Inr st)"
| "recurse_silently k E caller st (s # rest) =
     (case install k E (st\<lparr>self := (self st)\<lparr>installed_by := caller\<rparr>\<rparr>) s True of
        None \<Rightarrow> None
      | Some (Inl e) \<Rightarrow> Some (Inl e)
      | Some (Inr (r, st1)) \<Rightarrow>
          recurse_silently k E caller
            (st1\<lparr>self := (self st1)\<lparr>installed_by := installed_by (self st)\<rparr>\<rparr>) rest)"

definition delegate_modules :: "string \<Rightarrow> state \<Rightarrow> string list \<Rightarrow> state" where
  "delegate_modules caller st ms =
     log (map (\<lambda>m. EvModuleInstall m (force (self st)) (prompt (self st)) (sha (self st)) caller) ms) st"

section \<open>A registry and projects to run the installer on\<close>

text \<open>
  The two lines of the dependency classification example of section 8, as they come
  out of the file, with their newline.
\<close>

definition include_foo :: string where
  "include_foo =
     ''include { FOO } from '' @ [squote] @ ''../../../modules/nf-core/foo/main'' @ [squote, newline]"

definition include_bar :: string where
  "include_bar = ''include { BAR } from '' @ [squote] @ ''../bar/main'' @ [squote, newline]"

text \<open>
  A registry with the subworkflows \<open>x\<close> and \<open>nf/sub\<close>, whose \<open>main.nf\<close> includes the
  module \<open>foo\<close> and the subworkflow \<open>bar\<close>, with \<open>bar\<close>, which includes nothing, and
  with \<open>gone\<close>, whose files cannot be fetched. Every revision resolves to \<open>v2\<close>;
  \<open>modules.json\<close> is consistent, so that \<open>check_up_to_date\<close> changes nothing.
\<close>

definition example_env :: env where
  "example_env =
     \<lparr> dir_ok = True,
       install_folder = ''subworkflows/nf-core'',
       verify_sha = (\<lambda>p s. True),
       collect_and_verify_name =
         (\<lambda>s. if s = ''x'' \<or> s = ''bar'' \<or> s = ''nf/sub'' \<or> s = ''gone'' then Some s else None),
       check_up_to_date = (\<lambda>d m. m),
       get_version = (\<lambda>n s p cv. Some ''v2''),
       rmtree_ok = (\<lambda>d. True),
       registry =
         (\<lambda>n v. if n = ''x'' \<or> n = ''nf/sub'' then Some (Some [include_foo, include_bar])
                else if n = ''bar'' then Some (Some [])
                else None) \<rparr>"

text \<open>The same registry on a project whose directories cannot be removed.\<close>

definition stuck_env :: env where
  "stuck_env = example_env\<lparr>rmtree_ok := (\<lambda>d. False)\<rparr>"

text \<open>A project with nothing installed.\<close>

definition fresh :: "installer \<Rightarrow> state" where
  "fresh i = \<lparr> self = i, modules_json_file = Map.empty, disk = Map.empty, trace = [] \<rparr>"

text \<open>
  A project in which the component \<open>n\<close> is installed at \<open>v1\<close> with the referrers
  \<open>A\<close> and \<open>B\<close>.
\<close>

definition example_installed :: "installer \<Rightarrow> string \<Rightarrow> state" where
  "example_installed i n =
     \<lparr> self = i,
       modules_json_file = [n \<mapsto> \<lparr> git_sha = Some ''v1'', entry_installed_by = {''A'', ''B''} \<rparr>],
       disk = [os_path_join ''subworkflows/nf-core'' n \<mapsto> Some []],
       trace = [] \<rparr>"

section \<open>How the phases of \<open>install\<close> behave\<close>

lemma log_simps [simp]:
  "self (log es st) = self st"
  "disk (log es st) = disk st"
  "modules_json_file (log es st) = modules_json_file st"
  "trace (log es st) = trace st @ es"
  by (simp_all add: log_def)

lemma begin_install_Inr:
  assumes "begin_install E st sw = Inr (n, d, cv, mj, v, st3)"
  shows "st3 = log [EvCurrentVersion n cv, EvPresenceCheck n True, EvVersionResolved n (Some v)] st"
    and "collect_and_verify_name E sw = Some n"
    and "d = os_path_join (install_folder E) n"
    and "mj = check_up_to_date E (disk st) (modules_json_file st)"
    and "cv = get_subworkflow_version mj n"
    and "get_version E n (sha (self st)) (prompt (self st)) cv = Some v"
    and "check_component_installed cv (disk st d \<noteq> None) (force (self st))"
    and "n \<noteq> []" and "v \<noteq> []" and "dir_ok E" and "verify_sha E (prompt (self st)) (sha (self st))"
  using assms
  by (auto simp: begin_install_def Let_def log_def split: if_splits option.splits)

lemma begin_install_Inl:
  assumes "begin_install E st sw = Inl st'"
  shows "self st' = self st" and "disk st' = disk st"
    and "\<exists>es. trace st' = trace st @ es \<and> (\<forall>e \<in> set es. \<not> is_guidance e \<and> \<not> is_materialize e)"
  using assms
  by (auto simp: begin_install_def Let_def split: if_splits option.splits)

lemma begin_install_short_circuit:
  assumes "dir_ok E" and "verify_sha E (prompt (self st)) (sha (self st))"
    and "collect_and_verify_name E sw = Some n" and "n \<noteq> []"
    and "get_subworkflow_version (check_up_to_date E (disk st) (modules_json_file st)) n = Some v"
    and "disk st (os_path_join (install_folder E) n) \<noteq> None"
    and "\<not> force (self st)"
  shows "begin_install E st sw =
           Inl (log [EvCurrentVersion n (Some v), EvPresenceCheck n False,
                     EvUpdate n (Some v) (installed_by (self st))]
                  (st\<lparr>modules_json_file :=
                        update_entry (modules_json_file st) n (Some v) (installed_by (self st)) None\<rparr>))"
  using assms
  by (simp add: begin_install_def Let_def check_component_installed_def log_def)

lemma force_remove_facts:
  assumes "force_remove E st n d cv mj = (track, mj', st4)"
  shows "self st4 = self st" and "modules_json_file st4 = modules_json_file st"
    and "\<exists>es. trace st4 = trace st @ es \<and> (\<forall>e \<in> set es. \<not> is_guidance e \<and> \<not> is_materialize e)"
  using assms
  by (auto simp: force_remove_def Let_def split: if_splits prod.splits)

lemma download_facts:
  assumes "download E st n d cv mj v = (fetched, track, st5)"
  shows "self st5 = self st" and "modules_json_file st5 = modules_json_file st"
    and "\<exists>es. trace st5 = trace st @ es @ [EvMaterialize n v fetched]
              \<and> (\<forall>e \<in> set es. \<not> is_guidance e \<and> \<not> is_materialize e)"
    and "fetched = (registry E n v \<noteq> None)"
    and "fetched \<Longrightarrow> disk st5 d = registry E n v"
proof -
  obtain t m s4 where fr: "force_remove E st n d cv mj = (t, m, s4)"
    by (cases "force_remove E st n d cv mj") auto
  from assms fr have st5: "st5 = log [EvMaterialize n v fetched]
      (s4\<lparr>disk := snd (install_component_files E n v d (disk s4))\<rparr>)"
    and f: "fetched = fst (install_component_files E n v d (disk s4))" and "track = t"
    by (auto simp: download_def Let_def split: prod.splits)
  show "self st5 = self st" "modules_json_file st5 = modules_json_file st"
    using st5 force_remove_facts(1,2)[OF fr] by simp_all
  show "\<exists>es. trace st5 = trace st @ es @ [EvMaterialize n v fetched]
              \<and> (\<forall>e \<in> set es. \<not> is_guidance e \<and> \<not> is_materialize e)"
    using st5 force_remove_facts(3)[OF fr] by auto
  show "fetched = (registry E n v \<noteq> None)"
    using f by (simp add: install_component_files_def split: option.splits)
  show "fetched \<Longrightarrow> disk st5 d = registry E n v"
    using f st5 by (auto simp: install_component_files_def split: option.splits)
qed

lemma install_modules_facts:
  "install_modules st d ms = Inr st' \<Longrightarrow>
     self st' = self st \<and> disk st' = disk st \<and> modules_json_file st' = modules_json_file st
     \<and> trace st' = trace st @ map (\<lambda>m. EvModuleInstall m (force (self st)) (prompt (self st)) (sha (self st))
                                        (last (path_parts d))) ms"
  by (induction ms arbitrary: st) (auto split: list.splits)

lemma finish_install_simps [simp]:
  "self (finish_install st n v track silent) = self st"
  "disk (finish_install st n v track silent) = disk st"
  "modules_json_file (finish_install st n v track silent) =
     update_entry (modules_json_file st) n (Some v) (installed_by (self st)) track"
  "trace (finish_install st n v track silent) =
     trace st @ (if silent then [] else [EvGuidance n])
       @ [EvUpdateSubworkflow n v (installed_by (self st)) track]"
  by (simp_all add: finish_install_def Let_def)

lemma install_Suc_Inr:
  assumes "begin_install E st sw = Inr (n, d, cv, mj, v, st3)"
    and "download E st3 n d cv mj v = (fetched, track, st5)"
  shows "install (Suc k) E st sw silent =
     (if \<not> fetched then Some (Inr (False, st5))
      else (case install_included_components k E st5 d of
              None \<Rightarrow> None
            | Some (Inl e) \<Rightarrow> Some (Inl e)
            | Some (Inr st6) \<Rightarrow> Some (Inr (True, finish_install st6 n v track silent))))"
  using assms by simp

lemma install_Suc_Inl:
  assumes "begin_install E st sw = Inl st'"
  shows "install (Suc k) E st sw silent = Some (Inr (False, st'))"
  using assms by simp

declare install.simps [simp del] install_included_components.simps [simp del]

lemma install_cases:
  assumes "install k E st sw silent = Some (Inr (r, st'))"
  obtains (early) k' where "k = Suc k'" "begin_install E st sw = Inl st'" "\<not> r"
  | (nofetch) k' n d cv mj v st3 track where "k = Suc k'"
      "begin_install E st sw = Inr (n, d, cv, mj, v, st3)"
      "download E st3 n d cv mj v = (False, track, st')" "\<not> r"
  | (full) k' n d cv mj v st3 track st5 st6 where "k = Suc k'"
      "begin_install E st sw = Inr (n, d, cv, mj, v, st3)"
      "download E st3 n d cv mj v = (True, track, st5)"
      "install_included_components k' E st5 d = Some (Inr st6)"
      "st' = finish_install st6 n v track silent" "r"
proof (cases k)
  case 0
  with assms show ?thesis by (simp add: install.simps)
next
  case (Suc k')
  show ?thesis
  proof (cases "begin_install E st sw")
    case (Inl s)
    with assms Suc early show ?thesis by (auto simp: install_Suc_Inl)
  next
    case (Inr t)
    obtain n d cv mj v st3 where t: "t = (n, d, cv, mj, v, st3)" by (cases t) auto
    obtain f track st5 where dl: "download E st3 n d cv mj v = (f, track, st5)"
      by (cases "download E st3 n d cv mj v") auto
    from Inr t have b: "begin_install E st sw = Inr (n, d, cv, mj, v, st3)" by simp
    show ?thesis
    proof (cases f)
      case False
      with assms Suc b dl nofetch show ?thesis
        by (auto simp: install_Suc_Inr[OF b dl])
    next
      case True
      with assms Suc b dl full show ?thesis
        by (auto simp: install_Suc_Inr[OF b dl] split: option.splits sum.splits)
    qed
  qed
qed


lemma install_subworkflows_self:
  assumes IH: "\<forall>st sw r st'. install k E st sw True = Some (Inr (r, st')) \<longrightarrow> self st' = self st"
  shows "install_subworkflows k E st d ss = Some (Inr st') \<Longrightarrow> self st' = self st"
proof (induction ss arbitrary: st)
  case Nil
  then show ?case by simp
next
  case (Cons s ss)
  from Cons.prems obtain p ps r st1 where
      parts: "path_parts d = p # ps"
    and run: "install k E (st\<lparr>self := (self st)\<lparr>installed_by := last (p # ps)\<rparr>\<rparr>) s True = Some (Inr (r, st1))"
    and rest: "install_subworkflows k E (st1\<lparr>self := (self st1)\<lparr>installed_by := installed_by (self st)\<rparr>\<rparr>) d ss
                 = Some (Inr st')"
    by (auto split: list.splits option.splits sum.splits)
  from IH run have "self st1 = (self st)\<lparr>installed_by := last (p # ps)\<rparr>" by fastforce
  with Cons.IH[OF rest] show ?case by simp
qed

lemma install_included_components_self:
  assumes IH: "\<forall>st sw r st'. install k E st sw True = Some (Inr (r, st')) \<longrightarrow> self st' = self st"
    and "install_included_components k E st d = Some (Inr st')"
  shows "self st' = self st"
proof -
  from assms(2) obtain main_nf ms ss st1 where
      "get_modules_subworkflows_to_install main_nf = (ms, ss)"
    and subs: "install_subworkflows k E st d ss = Some (Inr st1)"
    and mods: "install_modules st1 d ms = Inr st'"
    by (auto simp: install_included_components.simps split: option.splits sum.splits prod.splits)
  from install_subworkflows_self[OF IH subs] install_modules_facts[OF mods]
  show ?thesis by simp
qed

lemma install_self:
  "install k E st sw silent = Some (Inr (r, st')) \<Longrightarrow> self st' = self st"
proof (induction k arbitrary: st sw silent r st')
  case 0
  then show ?case by (simp add: install.simps)
next
  case (Suc k)
  from Suc.prems show ?case
  proof (cases rule: install_cases)
    case (early k')
    then show ?thesis by (simp add: begin_install_Inl)
  next
    case (nofetch k' n d cv mj v st3 track)
    then show ?thesis
      using begin_install_Inr(1)[OF nofetch(2)] download_facts(1)[OF nofetch(3)] by simp
  next
    case (full k' n d cv mj v st3 track st5 st6)
    from full(1) have k: "k' = k" by simp
    have IH: "\<forall>st sw r st'. install k E st sw True = Some (Inr (r, st')) \<longrightarrow> self st' = self st"
      using Suc.IH by blast
    have "self st6 = self st5"
      using install_included_components_self[OF IH] full(4) k by blast
    then show ?thesis
      using begin_install_Inr(1)[OF full(2)] download_facts(1)[OF full(3)] full(5) by simp
  qed
qed

lemma included_keeps_self:
  assumes "install_included_components k E st d = Some (Inr st')"
  shows "self st' = self st"
proof -
  have "\<forall>st sw r st'. install k E st sw True = Some (Inr (r, st')) \<longrightarrow> self st' = self st"
    using install_self by blast
  from install_included_components_self[OF this assms] show ?thesis .
qed

lemma quiet_simps [simp]:
  "quiet []" "quiet (es @ fs) = (quiet es \<and> quiet fs)" "quiet (e # es) = (\<not> is_guidance e \<and> quiet es)"
  by (auto simp: quiet_def)

lemma install_subworkflows_trace:
  assumes IH: "\<forall>st sw r st'. install k E st sw True = Some (Inr (r, st'))
                 \<longrightarrow> (\<exists>es. trace st' = trace st @ es \<and> quiet es)"
  shows "install_subworkflows k E st d ss = Some (Inr st') \<Longrightarrow> \<exists>es. trace st' = trace st @ es \<and> quiet es"
proof (induction ss arbitrary: st)
  case Nil
  then show ?case by simp
next
  case (Cons s ss)
  from Cons.prems obtain p ps r st1 where
      run: "install k E (st\<lparr>self := (self st)\<lparr>installed_by := last (p # ps)\<rparr>\<rparr>) s True = Some (Inr (r, st1))"
    and rest: "install_subworkflows k E (st1\<lparr>self := (self st1)\<lparr>installed_by := installed_by (self st)\<rparr>\<rparr>) d ss
                 = Some (Inr st')"
    by (auto split: list.splits option.splits sum.splits)
  from IH run obtain es where es: "trace st1 = trace st @ es" "quiet es" by fastforce
  from Cons.IH[OF rest] obtain fs where fs: "trace st' = trace st1 @ fs" "quiet fs" by auto
  from es fs show ?case by simp
qed

lemma install_included_components_trace:
  assumes IH: "\<forall>st sw r st'. install k E st sw True = Some (Inr (r, st'))
                 \<longrightarrow> (\<exists>es. trace st' = trace st @ es \<and> quiet es)"
    and "install_included_components k E st d = Some (Inr st')"
  shows "\<exists>es. trace st' = trace st @ es \<and> quiet es"
proof -
  from assms(2) obtain ms ss st1 where
      subs: "install_subworkflows k E st d ss = Some (Inr st1)"
    and mods: "install_modules st1 d ms = Inr st'"
    by (auto simp: install_included_components.simps split: option.splits sum.splits prod.splits)
  from install_subworkflows_trace[OF IH subs] obtain es where es: "trace st1 = trace st @ es" "quiet es"
    by auto
  have "quiet (map (\<lambda>m. EvModuleInstall m (force (self st1)) (prompt (self st1)) (sha (self st1))
                           (last (path_parts d))) ms)"
    by (simp add: quiet_def)
  with install_modules_facts[OF mods] es show ?thesis by simp
qed

lemma install_trace:
  "install k E st sw silent = Some (Inr (r, st'))
     \<Longrightarrow> \<exists>es. trace st' = trace st @ es \<and> (silent \<longrightarrow> quiet es)"
proof (induction k arbitrary: st sw silent r st')
  case 0
  then show ?case by (simp add: install.simps)
next
  case (Suc k)
  have IH: "\<forall>st sw r st'. install k E st sw True = Some (Inr (r, st'))
                 \<longrightarrow> (\<exists>es. trace st' = trace st @ es \<and> quiet es)"
    using Suc.IH by blast
  from Suc.prems show ?case
  proof (cases rule: install_cases)
    case (early k')
    then show ?thesis using begin_install_Inl(3)[OF early(2)] by (auto simp: quiet_def)
  next
    case (nofetch k' n d cv mj v st3 track)
    from download_facts(3)[OF nofetch(3)] obtain es where
      "trace st' = trace st3 @ es @ [EvMaterialize n v False]" "\<forall>e\<in>set es. \<not> is_guidance e \<and> \<not> is_materialize e"
      by auto
    then show ?thesis
      using begin_install_Inr(1)[OF nofetch(2)] by (auto simp: quiet_def)
  next
    case (full k' n d cv mj v st3 track st5 st6)
    from full(1) have k: "k' = k" by simp
    from download_facts(3)[OF full(3)] obtain es where
      es: "trace st5 = trace st3 @ es @ [EvMaterialize n v True]" "\<forall>e\<in>set es. \<not> is_guidance e \<and> \<not> is_materialize e"
      by auto
    from install_included_components_trace[OF IH] full(4) k obtain fs where
      fs: "trace st6 = trace st5 @ fs" "quiet fs" by blast
    from es fs full(5) begin_install_Inr(1)[OF full(2)] show ?thesis
      by (auto simp: quiet_def)
  qed
qed

lemma included_trace:
  assumes "install_included_components k E st d = Some (Inr st')"
  shows "\<exists>es. trace st' = trace st @ es \<and> quiet es"
proof -
  have "\<forall>st sw r st'. install k E st sw True = Some (Inr (r, st'))
                 \<longrightarrow> (\<exists>es. trace st' = trace st @ es \<and> quiet es)"
    using install_trace by blast
  from install_included_components_trace[OF this assms] show ?thesis .
qed

subsection \<open>The steps before the download\<close>

lemma begin_install_proceeds:
  assumes "dir_ok E" and "verify_sha E (prompt (self st)) (sha (self st))"
    and "collect_and_verify_name E sw = Some n" and "n \<noteq> []"
    and "check_component_installed
           (get_subworkflow_version (check_up_to_date E (disk st) (modules_json_file st)) n)
           (disk st (os_path_join (install_folder E) n) \<noteq> None) (force (self st))"
    and "get_version E n (sha (self st)) (prompt (self st))
           (get_subworkflow_version (check_up_to_date E (disk st) (modules_json_file st)) n) = Some v"
    and "v \<noteq> []"
  shows "begin_install E st sw =
           Inr (n, os_path_join (install_folder E) n,
                get_subworkflow_version (check_up_to_date E (disk st) (modules_json_file st)) n,
                check_up_to_date E (disk st) (modules_json_file st), v,
                log [EvCurrentVersion n
                       (get_subworkflow_version (check_up_to_date E (disk st) (modules_json_file st)) n),
                     EvPresenceCheck n True, EvVersionResolved n (Some v)] st)"
  using assms by (simp add: begin_install_def Let_def log_def)

lemma force_remove_track:
  assumes "force_remove E st n d cv mj = (track, mj', st4)" and "force (self st)"
  shows "track = (case mj n of None \<Rightarrow> None | Some e \<Rightarrow> Some (entry_installed_by e))"
  using assms
  by (auto simp: force_remove_def Let_def check_component_installed_def clean_modules_json_def
           split: if_splits prod.splits option.splits)

lemma force_remove_own:
  assumes "force_remove E st n d cv mj = (track, mj', st4)"
  shows "\<exists>es. trace st4 = trace st @ es \<and> (\<forall>e \<in> set es. own_step n e)"
  using assms
  by (auto simp: force_remove_def Let_def split: if_splits prod.splits)

lemma download_split:
  assumes "download E st n d cv mj v = (fetched, track, st5)"
  obtains mj' st4 where "force_remove E st n d cv mj = (track, mj', st4)"
    and "st5 = log [EvMaterialize n v fetched]
                 (st4\<lparr>disk := snd (install_component_files E n v d (disk st4))\<rparr>)"
proof -
  obtain t m s4 where fr: "force_remove E st n d cv mj = (t, m, s4)"
    by (cases "force_remove E st n d cv mj") auto
  with assms have "track = t"
    "st5 = log [EvMaterialize n v fetched]
             (s4\<lparr>disk := snd (install_component_files E n v d (disk s4))\<rparr>)"
    by (auto simp: download_def Let_def split: prod.splits)
  with fr that show ?thesis by blast
qed

lemma download_own:
  assumes "download E st n d cv mj v = (fetched, track, st5)"
  shows "\<exists>es. trace st5 = trace st @ es @ [EvMaterialize n v fetched] \<and> (\<forall>e \<in> set es. own_step n e)"
proof -
  from assms obtain mj' st4 where fr: "force_remove E st n d cv mj = (track, mj', st4)"
    and st5: "st5 = log [EvMaterialize n v fetched]
                 (st4\<lparr>disk := snd (install_component_files E n v d (disk st4))\<rparr>)"
    by (rule download_split)
  from force_remove_own[OF fr] st5 show ?thesis by auto
qed

lemma download_track:
  assumes "download E st n d cv mj v = (fetched, track, st5)" and "force (self st)"
  shows "track = (case mj n of None \<Rightarrow> None | Some e \<Rightarrow> Some (entry_installed_by e))"
proof -
  from assms(1) obtain mj' st4 where fr: "force_remove E st n d cv mj = (track, mj', st4)"
    by (rule download_split)
  from force_remove_track[OF fr assms(2)] show ?thesis .
qed

lemma begin_install_Inl_events:
  assumes "begin_install E st sw = Inl st'"
    and "dir_ok E" and "verify_sha E (prompt (self st)) (sha (self st))"
    and "collect_and_verify_name E sw = Some n" and "n \<noteq> []"
  shows "(\<exists>cv ib. new_events st st' = [EvCurrentVersion n cv, EvPresenceCheck n False, EvUpdate n cv ib])
       \<or> (\<exists>cv res. new_events st st' = [EvCurrentVersion n cv, EvPresenceCheck n True, EvVersionResolved n res])"
  using assms
  by (auto simp: begin_install_def Let_def new_events_def split: if_splits option.splits)

lemma trace_new_events:
  "trace st' = trace st @ es \<Longrightarrow> new_events st st' = es"
  by (simp add: new_events_def)

section \<open>The dependency scan, line by line\<close>

lemma lower_char_ascii: "lower_char c = ascii_lower c"
  by (cases c) (simp add: lower_char_def ascii_lower_def is_upper_def Let_def)

lemma lower_ascii: "lower s = map ascii_lower s"
  by (simp add: lower_def lower_char_ascii)

lemma startswith_begins_with: "startswith s p = begins_with p s"
  by (induction s p rule: startswith.induct) (auto simp: begins_with_def)

lemma split_on_not_Nil: "split_on c s \<noteq> []"
  by (induction s) (auto split: list.splits)

lemma join_Cons_Cons: "ps \<noteq> [] \<Longrightarrow> join sep ((x # p) # ps) = x # join sep (p # ps)"
  by (cases ps) auto

lemma join_Nil_Cons: "ps \<noteq> [] \<Longrightarrow> join sep ([] # ps) = sep @ join sep ps"
  by (cases ps) auto

lemma join_split_on:
  "join [s] (split_on c xs) = map (\<lambda>x. if x = c then s else x) xs"
proof (induction xs)
  case Nil
  show ?case by simp
next
  case (Cons x xs)
  obtain p ps where ps: "split_on c xs = p # ps"
    using split_on_not_Nil[of c xs] by (cases "split_on c xs") auto
  show ?case
  proof (cases "x = c")
    case True
    with Cons ps show ?thesis by simp
  next
    case False
    have "join [s] ((x # p) # ps) = x # join [s] (p # ps)"
      by (cases ps) auto
    with False Cons ps show ?thesis by simp
  qed
qed

lemma ascii_lower_underscore: "(ascii_lower c = CHR ''_'') = (c = CHR ''_'')"
  by (cases c) (simp add: ascii_lower_def)

lemma module_dependency_name_code:
  "join ''/'' (split_on CHR ''_'' (lower symbol)) = module_dependency_name symbol"
  by (simp add: join_split_on lower_ascii module_dependency_name_def ascii_lower_underscore)

lemma subworkflow_dependency_name_code:
  "lower symbol = subworkflow_dependency_name symbol"
  by (simp add: lower_ascii subworkflow_dependency_name_def)

lemma module_dependency_name_code':
  "join ''/'' (split_on CHR ''_'' (subworkflow_dependency_name symbol)) = module_dependency_name symbol"
  using module_dependency_name_code[of symbol] by (simp add: subworkflow_dependency_name_code)

lemma scan_lines_acc:
  "scan_lines ls ms ss = (ms @ concat (map line_modules ls), ss @ concat (map line_subworkflows ls))"
  by (induction ls arbitrary: ms ss)
     (auto simp: line_modules_def line_subworkflows_def startswith_begins_with
                 module_dependency_name_code' subworkflow_dependency_name_code
           split: option.splits)

subsection \<open>The regular expression on plain include statements\<close>

lemma star_greedy:
  "\<forall>c \<in> set xs. p c \<Longrightarrow> re_run (Star p) ys g k = Some r \<Longrightarrow> re_run (Star p) (xs @ ys) g k = Some r"
  by (induction xs) auto

lemma star_stop:
  "ys = [] \<or> \<not> p (hd ys) \<Longrightarrow> re_run (Star p) ys g k = k ys g"
  by (cases ys) auto

lemma star_fail:
  "\<forall>i \<le> length ys. k (drop i ys) g = None \<Longrightarrow> re_run (Star p) ys g k = None"
proof (induction ys)
  case Nil
  then show ?case by simp
next
  case (Cons c cs)
  have "\<forall>i \<le> length cs. k (drop i cs) g = None"
  proof (intro allI impI)
    fix i assume "i \<le> length cs"
    with Cons.prems have "k (drop (Suc i) (c # cs)) g = None" by (metis Suc_le_mono length_Cons)
    then show "k (drop i cs) g = None" by simp
  qed
  with Cons.IH have "re_run (Star p) cs g k = None" by blast
  moreover from Cons.prems have "k (drop 0 (c # cs)) g = None" by blast
  ultimately show ?case by simp
qed

lemma quote_fails:
  assumes "squote \<notin> set s" and "dquote \<notin> set s"
  shows "re_run quote (drop i s) g k = None"
proof (cases "drop i s")
  case Nil
  then show ?thesis by (simp add: quote_def lit_def)
next
  case (Cons c cs)
  then have "c \<in> set s" by (metis in_set_dropD list.set_intros(1))
  with assms have "c \<noteq> squote" "c \<noteq> dquote" by auto
  with Cons show ?thesis by (simp add: quote_def lit_def)
qed

lemma lits_run:
  "re_run (lits p r) s g k = (if startswith s p then re_run r (drop (length p) s) g k else None)"
  by (induction s p arbitrary: rule: startswith.induct) (auto simp: lit_def)

lemma lits_append: "re_run (lits p r) (p @ s) g k = re_run r s g k"
  by (induction p) (auto simp: lit_def)

lemma word_not_space: "is_word c \<Longrightarrow> \<not> is_space c"
  by (auto simp: is_word_def is_space_def is_lower_def is_upper_def is_digit_def Let_def)

lemma closing_quote:
  assumes link: "newline \<notin> set link" and rest: "squote \<notin> set rest" "dquote \<notin> set rest"
  shows "re_run (Seq (Group 2 (Star is_dot)) quote) (link @ squote # rest) g (\<lambda>_ g. Some g)
           = Some (g(2 := link))"
proof -
  let ?s = "link @ squote # rest"
  let ?k = "\<lambda>s' g'. re_run quote s' (g'(2 := take (length ?s - length s') ?s)) (\<lambda>_ g. Some g)"
  have "\<forall>i \<le> length rest. ?k (drop i rest) g = None"
    using quote_fails[OF rest] by blast
  then have "re_run (Star is_dot) rest g ?k = None"
    by (rule star_fail)
  then have "re_run (Star is_dot) (squote # rest) g ?k = Some (g(2 := link))"
    by (simp add: is_dot_def squote_def newline_def quote_def lit_def)
  moreover from link have "\<forall>c \<in> set link. is_dot c"
    by (auto simp: is_dot_def)
  ultimately have "re_run (Star is_dot) ?s g ?k = Some (g(2 := link))"
    by (rule star_greedy[rotated])
  then show ?thesis by simp
qed

lemma re_match_include_statement:
  assumes sym: "symbol \<noteq> []" "\<forall>c \<in> set symbol. is_word c"
    and link: "newline \<notin> set link" and rest: "squote \<notin> set rest" "dquote \<notin> set rest"
  shows "re_match (include_statement symbol link rest) = Some (symbol, link)"
proof -
  define T where "T = Seq (Group 2 (Star is_dot)) quote"
  define R where "R =
       (Seq (Opt (Seq (Star is_space) (lits ''as'' (Star is_space))))
       (Seq (Opt (Star is_word))
       (Seq (Seq (Star is_space) (lit CHR ''}''))
       (Seq (Seq (Star is_space) (lits ''from'' (Star is_space)))
       (Seq quote T)))))"
  let ?K = "\<lambda>(_::string) (g::groups). Some g"
  let ?t = "link @ squote # rest"
  let ?s2 = "'' } from '' @ squote # ?t"
  have T: "\<And>g. re_run T ?t g ?K = Some (g(2 := link))"
    unfolding T_def using closing_quote[OF link rest] .
  have R: "\<And>g. re_run R ?s2 g ?K = Some (g(2 := link))"
    unfolding R_def
    by (simp add: T[unfolded squote_def] lit_def is_space_def is_word_def is_lower_def is_upper_def is_digit_def
          quote_def squote_def dquote_def Let_def)
  have G: "re_run (Seq (Group 1 (Star is_word)) R) (symbol @ ?s2) g ?K = Some (g(1 := symbol, 2 := link))" for g
  proof -
    let ?s = "symbol @ ?s2"
    let ?k = "\<lambda>s' g'. re_run R s' (g'(1 := take (length ?s - length s') ?s)) ?K"
    have "re_run (Star is_word) ?s2 g ?k = ?k ?s2 g"
      by (rule star_stop) (simp add: is_word_def is_lower_def is_upper_def is_digit_def Let_def)
    also have "\<dots> = Some (g(1 := symbol, 2 := link))"
      using R[of "g(1 := symbol)"] by simp
    finally have a: "re_run (Star is_word) ?s2 g ?k = Some (g(1 := symbol, 2 := link))" .
    from star_greedy[OF sym(2) a] show ?thesis by simp
  qed
  have hd: "\<not> is_space (hd (symbol @ ?s2))"
    using sym by (cases symbol) (auto simp: word_not_space)
  have H: "re_run (Seq (Seq (Star is_space) (Seq (lit CHR ''{'') (Star is_space)))
                 (Seq (Group 1 (Star is_word)) R)) ('' { '' @ symbol @ ?s2) g ?K
          = Some (g(1 := symbol, 2 := link))" for g
  proof -
    let ?k = "\<lambda>s' g'. re_run (Seq (Group 1 (Star is_word)) R) s' g' ?K"
    have "re_run (Star is_space) (symbol @ ?s2) g ?k = ?k (symbol @ ?s2) g"
      using hd by (intro star_stop) simp
    with G[of g] have "re_run (Star is_space) (symbol @ ?s2) g ?k = Some (g(1 := symbol, 2 := link))"
      by simp
    then show ?thesis
      by (simp add: lit_def is_space_def)
  qed
  have ir: "include_regex =
      lits ''include'' (Seq (Seq (Star is_space) (Seq (lit CHR ''{'') (Star is_space)))
                 (Seq (Group 1 (Star is_word)) R))"
    unfolding include_regex_def R_def T_def ..
  have st: "include_statement symbol link rest = ''include'' @ ('' { '' @ symbol @ ?s2)"
    by (simp add: include_statement_def)
  have "re_run include_regex (include_statement symbol link rest) g ?K
          = Some (g(1 := symbol, 2 := link))" for g
    unfolding ir st lits_append by (rule H)
  then show ?thesis
    by (simp add: re_match_def)
qed

lemma re_match_no_include: "\<not> begins_with ''include'' line \<Longrightarrow> re_match line = None"
  unfolding re_match_def include_regex_def lits_run
  by (simp add: startswith_begins_with)

lemmas char_defs = squote_def dquote_def newline_def is_word_def is_lower_def is_upper_def
  is_digit_def Let_def

section \<open>The dependency installs, one by one\<close>

lemma install_subworkflows_recurse:
  "path_parts d \<noteq> [] \<Longrightarrow>
     install_subworkflows k E st d subs = recurse_silently k E (last (path_parts d)) st subs"
proof (induction subs arbitrary: st)
  case Nil
  show ?case by simp
next
  case (Cons s subs)
  from Cons.prems obtain p ps where parts: "path_parts d = p # ps"
    by (cases "path_parts d") auto
  show ?case
    using Cons.IH[OF Cons.prems] parts
    by (simp split: option.splits sum.splits prod.splits)
qed

lemma delegate_modules_Cons:
  "delegate_modules c st (m # ms) =
     delegate_modules c (log [EvModuleInstall m (force (self st)) (prompt (self st)) (sha (self st)) c] st) ms"
  by (simp add: delegate_modules_def log_def)

lemma install_modules_delegate:
  "path_parts d \<noteq> [] \<Longrightarrow>
     install_modules st d mods = Inr (delegate_modules (last (path_parts d)) st mods)"
proof (induction mods arbitrary: st)
  case Nil
  show ?case by (simp add: delegate_modules_def log_def)
next
  case (Cons m mods)
  from Cons.prems obtain p ps where parts: "path_parts d = p # ps"
    by (cases "path_parts d") auto
  show ?case
    using Cons.IH[OF Cons.prems] parts
    by (simp add: delegate_modules_Cons)
qed

lemma install_included_components_recurse:
  assumes "path_parts d \<noteq> []" and "disk st d = Some (Some main_nf)"
    and "get_modules_subworkflows_to_install main_nf = (mods, subs)"
  shows "install_included_components k E st d =
     (case recurse_silently k E (last (path_parts d)) st subs of
        None \<Rightarrow> None
      | Some (Inl e) \<Rightarrow> Some (Inl e)
      | Some (Inr st1) \<Rightarrow> Some (Inr (delegate_modules (last (path_parts d)) st1 mods)))"
  using assms
  by (simp add: install_included_components.simps install_subworkflows_recurse
        install_modules_delegate split: option.splits sum.splits)

lemma recurse_silently_facts:
  assumes "path_parts d \<noteq> []"
    and "recurse_silently k E (last (path_parts d)) st subs = Some (Inr st1)"
  shows "self st1 = self st" and "\<exists>es. trace st1 = trace st @ es \<and> quiet es"
proof -
  from assms have run: "install_subworkflows k E st d subs = Some (Inr st1)"
    by (simp add: install_subworkflows_recurse)
  have "\<forall>st sw r st'. install k E st sw True = Some (Inr (r, st')) \<longrightarrow> self st' = self st"
    using install_self by blast
  from install_subworkflows_self[OF this run] show "self st1 = self st" .
  have "\<forall>st sw r st'. install k E st sw True = Some (Inr (r, st'))
                 \<longrightarrow> (\<exists>es. trace st' = trace st @ es \<and> quiet es)"
    using install_trace by blast
  from install_subworkflows_trace[OF this run] show "\<exists>es. trace st1 = trace st @ es \<and> quiet es" .
qed

section \<open>The last part of the component directory\<close>







section \<open>Running the installer on the examples\<close>

lemma scan_example: "get_modules_subworkflows_to_install [include_foo, include_bar] = ([''foo''], [''bar''])"
  by (simp add: get_modules_subworkflows_to_install_def include_foo_def include_bar_def re_match_def
        include_regex_def lit_def quote_def squote_def dquote_def newline_def is_space_def is_word_def
        is_dot_def is_lower_def is_upper_def is_digit_def lower_def lower_char_def)

lemma scan_empty: "get_modules_subworkflows_to_install [] = ([], [])"
  by (simp add: get_modules_subworkflows_to_install_def)

lemmas eval_defs = begin_install_def download_def force_remove_def finish_install_def
  install_component_files_def clear_component_dir_def clean_modules_json_def update_entry_def
  get_subworkflow_version_def check_component_installed_def log_def init_def fresh_def
  example_env_def Let_def install.simps install_included_components.simps

lemmas eval_more = eval_defs example_installed_def stuck_env_def run_trace_def run_entry_def
  run_result_def scan_example scan_empty path_parts_def os_path_join_def new_events_def referrers_def

section \<open>The claims\<close>

subsection \<open>The already-installed short-circuit\<close>

text \<open>
  Claim C1, as the spec states it, asks for an outcome of the short-circuit that differs
  from the outcome of a failure. On the project where \<open>x\<close> is installed, the request
  for \<open>x\<close> and the request for a name the registry does not know both return
  \<open>False\<close>.
\<close>

theorem already_installed_returns_like_failure:
  "run_result (install (Suc 0) example_env
       (example_installed (init False False None (PyStr ''C'')) ''x'') ''x'' False) = Some False
   \<and> run_result (install (Suc 0) example_env
       (example_installed (init False False None (PyStr ''C'')) ''x'') ''unknown'' False) = Some False"
  by (simp add: eval_more)

text \<open>
  Claim C1, amended: for every install request for a component whose files exist on disk
  at a recorded version, with \<open>force\<close> false, \<open>install\<close> returns, for every amount of
  fuel; it materializes nothing (the disk is unchanged and no download is in the events
  of the call), sets the lockfile entry of the component to the recorded version with the
  caller's \<open>installed_by\<close> added to the referrers the file holds, and returns
  \<open>False\<close>, which differs from the \<open>True\<close> of an install.
\<close>

theorem already_installed_short_circuit:
  assumes "dir_ok E" and "verify_sha E (prompt (self st)) (sha (self st))"
    and "collect_and_verify_name E sw = Some n" and "n \<noteq> []"
    and "get_subworkflow_version (check_up_to_date E (disk st) (modules_json_file st)) n = Some v"
    and "disk st (os_path_join (install_folder E) n) \<noteq> None"
    and "\<not> force (self st)"
  shows "\<exists>st'. install (Suc k) E st sw silent = Some (Inr (False, st'))
           \<and> disk st' = disk st \<and> self st' = self st
           \<and> (\<forall>e \<in> set (new_events st st'). \<not> is_materialize e)
           \<and> modules_json_file st' =
               (modules_json_file st)(n \<mapsto>
                  \<lparr> git_sha = Some v,
                    entry_installed_by =
                      insert (installed_by (self st)) (referrers (modules_json_file st) n) \<rparr>)"
proof -
  let ?st' = "log [EvCurrentVersion n (Some v), EvPresenceCheck n False,
                     EvUpdate n (Some v) (installed_by (self st))]
                  (st\<lparr>modules_json_file :=
                        update_entry (modules_json_file st) n (Some v) (installed_by (self st)) None\<rparr>)"
  have "install (Suc k) E st sw silent = Some (Inr (False, ?st'))"
    using begin_install_short_circuit[OF assms] by (simp add: install_Suc_Inl)
  moreover have "new_events st ?st' = [EvCurrentVersion n (Some v), EvPresenceCheck n False,
                     EvUpdate n (Some v) (installed_by (self st))]"
    by (simp add: new_events_def)
  ultimately show ?thesis
    by (simp add: update_entry_def referrers_def)
qed

text \<open>The short-circuit on the project where \<open>x\<close> is installed, for the caller \<open>C\<close>.\<close>

theorem already_installed_short_circuit_witness:
  "\<not> force (self (example_installed (init False False None (PyStr ''C'')) ''x''))
   \<and> (\<exists>st'. install (Suc 0) example_env
               (example_installed (init False False None (PyStr ''C'')) ''x'') ''x'' False
             = Some (Inr (False, st'))
           \<and> disk st' = disk (example_installed (init False False None (PyStr ''C'')) ''x'')
           \<and> modules_json_file st' ''x''
               = Some \<lparr> git_sha = Some ''v1'', entry_installed_by = {''A'', ''B'', ''C''} \<rparr>)"
proof -
  let ?st = "example_installed (init False False None (PyStr ''C'')) ''x''"
  have h: "dir_ok example_env" "verify_sha example_env (prompt (self ?st)) (sha (self ?st))"
    "collect_and_verify_name example_env ''x'' = Some ''x''" "''x'' \<noteq> []"
    "get_subworkflow_version (check_up_to_date example_env (disk ?st) (modules_json_file ?st)) ''x''
       = Some ''v1''"
    "disk ?st (os_path_join (install_folder example_env) ''x'') \<noteq> None"
    "\<not> force (self ?st)"
    by (simp_all add: eval_more)
  from already_installed_short_circuit[OF h, of 0 False] obtain st' where
    "install (Suc 0) example_env ?st ''x'' False = Some (Inr (False, st'))"
    "disk st' = disk ?st"
    "modules_json_file st' = (modules_json_file ?st)(''x'' \<mapsto>
        \<lparr> git_sha = Some ''v1'',
          entry_installed_by = insert (installed_by (self ?st)) (referrers (modules_json_file ?st) ''x'') \<rparr>)"
    by blast
  moreover have "insert (installed_by (self ?st)) (referrers (modules_json_file ?st) ''x'')
                   = {''A'', ''B'', ''C''}"
    by (auto simp: eval_more)
  ultimately show ?thesis using h(7) by auto
qed

subsection \<open>The installer's \<open>installed_by\<close> field around the dependency installs\<close>

text \<open>
  Claim C10: for every call to \<open>install_included_components\<close> that returns normally,
  the installer's \<open>installed_by\<close> field afterwards equals its value before the call.
\<close>

theorem installed_by_restored:
  "install_included_components k E st d = Some (Inr st') \<Longrightarrow>
     installed_by (self st') = installed_by (self st)"
  by (simp add: included_keeps_self)

text \<open>
  A call that returns normally: the dependencies of \<open>x\<close>, one subworkflow and one
  module, installed for the caller \<open>caller\<close>.
\<close>

theorem installed_by_restored_witness:
  "\<exists>st'. install_included_components (Suc 0) example_env
            (example_installed (init False False None (PyStr ''caller'')) ''x''
               \<lparr>disk := [''subworkflows/nf-core/x'' \<mapsto> Some [include_foo, include_bar]]\<rparr>)
            ''subworkflows/nf-core/x'' = Some (Inr st')
         \<and> installed_by (self st') = ''caller''"
proof -
  let ?st = "example_installed (init False False None (PyStr ''caller'')) ''x''
               \<lparr>disk := [''subworkflows/nf-core/x'' \<mapsto> Some [include_foo, include_bar]]\<rparr>"
  have "\<exists>st'. install_included_components (Suc 0) example_env ?st ''subworkflows/nf-core/x''
          = Some (Inr st')"
    by (simp add: eval_more)
  then obtain st' where run:
    "install_included_components (Suc 0) example_env ?st ''subworkflows/nf-core/x'' = Some (Inr st')"
    by blast
  from installed_by_restored[OF run] have "installed_by (self st') = ''caller''"
    by (simp add: eval_more)
  with run show ?thesis by blast
qed

subsection \<open>A forced reinstall keeps the referrers\<close>

text \<open>
  Claim C2: for every forced reinstall that installs (the call returns \<open>True\<close>) of a
  component whose lockfile entry \<open>e\<close> holds the referrer set \<open>S\<close>, the referrers
  taken from the removed entry are merged back: the entry of the component in the
  persisted lockfile afterwards is at the version that was resolved, its referrers
  include all of \<open>S\<close>, and they include the caller's \<open>installed_by\<close>. No referrer is
  lost. (The entry may hold more than \<open>S\<close> and the caller only when an install nested
  in the dependencies has written to the same entry in between.)
\<close>

theorem force_reinstall_keeps_referrers:
  assumes run: "install (Suc k) E st sw silent = Some (Inr (True, st'))"
    and forced: "force (self st)"
    and name: "collect_and_verify_name E sw = Some n"
    and entry: "check_up_to_date E (disk st) (modules_json_file st) n = Some e"
  shows "\<exists>e' v. get_version E n (sha (self st)) (prompt (self st)) (git_sha e) = Some v
           \<and> modules_json_file st' n = Some e'
           \<and> git_sha e' = Some v
           \<and> entry_installed_by e \<subseteq> entry_installed_by e'
           \<and> installed_by (self st) \<in> entry_installed_by e'"
  using run
proof (cases rule: install_cases)
  case (full k' n' d cv mj v st3 track st5 st6)
  note b = begin_install_Inr[OF full(2)]
  from b(2) name have n: "n' = n" by simp
  from b(4,5) entry n have cv: "cv = git_sha e" and mjn: "mj n = Some e"
    by (simp_all add: get_subworkflow_version_def)
  from b(1) forced have "force (self st3)" by simp
  from download_track[OF full(3) this] mjn n have track: "track = Some (entry_installed_by e)"
    by simp
  have "self st6 = self st5" using included_keeps_self[OF full(4)] .
  with download_facts(1)[OF full(3)] b(1) have self6: "self st6 = self st" by simp
  from full(5) n track self6 have
    "modules_json_file st' n =
       Some \<lparr> git_sha = Some v,
              entry_installed_by = insert (installed_by (self st))
                (referrers (modules_json_file st6) n \<union> entry_installed_by e) \<rparr>"
    by (simp add: update_entry_def referrers_def)
  moreover from b(6) cv n have "get_version E n (sha (self st)) (prompt (self st)) (git_sha e) = Some v"
    by simp
  ultimately show ?thesis by auto
qed simp_all

text \<open>
  The forced reinstall of \<open>x\<close>, installed with the referrers \<open>A\<close> and \<open>B\<close>, by the
  caller \<open>A\<close>.
\<close>

theorem force_reinstall_keeps_referrers_witness:
  "\<exists>st'. install (Suc (Suc 0)) example_env
            (example_installed (init True False None (PyStr ''A'')) ''x'') ''x'' False
          = Some (Inr (True, st'))
        \<and> force (self (example_installed (init True False None (PyStr ''A'')) ''x''))
        \<and> (\<exists>e'. modules_json_file st' ''x'' = Some e' \<and> git_sha e' = Some ''v2''
                \<and> {''A'', ''B''} \<subseteq> entry_installed_by e' \<and> ''A'' \<in> entry_installed_by e')"
proof -
  let ?st = "example_installed (init True False None (PyStr ''A'')) ''x''"
  let ?e = "\<lparr> git_sha = Some ''v1'', entry_installed_by = {''A'', ''B''} \<rparr>"
  have "\<exists>st'. install (Suc (Suc 0)) example_env ?st ''x'' False = Some (Inr (True, st'))"
    by (simp add: eval_more)
  then obtain st' where run: "install (Suc (Suc 0)) example_env ?st ''x'' False = Some (Inr (True, st'))"
    by blast
  have h: "force (self ?st)" "collect_and_verify_name example_env ''x'' = Some ''x''"
    "check_up_to_date example_env (disk ?st) (modules_json_file ?st) ''x'' = Some ?e"
    by (simp_all add: eval_more)
  from force_reinstall_keeps_referrers[OF run h] obtain e' v where
    "get_version example_env ''x'' (sha (self ?st)) (prompt (self ?st)) (git_sha ?e) = Some v"
    "modules_json_file st' ''x'' = Some e'" "git_sha e' = Some v"
    "entry_installed_by ?e \<subseteq> entry_installed_by e'" "installed_by (self ?st) \<in> entry_installed_by e'"
    by blast
  moreover have "get_version example_env ''x'' (sha (self ?st)) (prompt (self ?st)) (git_sha ?e) = Some ''v2''"
    "installed_by (self ?st) = ''A''"
    by (simp_all add: eval_more)
  ultimately have "\<exists>e'. modules_json_file st' ''x'' = Some e' \<and> git_sha e' = Some ''v2''
                \<and> {''A'', ''B''} \<subseteq> entry_installed_by e' \<and> ''A'' \<in> entry_installed_by e'"
    by auto
  with run h(1) show ?thesis by blast
qed

text \<open>
  The example of section 8: the entry after that reinstall is at the new version with
  exactly the referrers \<open>A\<close> and \<open>B\<close>.
\<close>

lemma force_reinstall_example:
  "run_entry (install (Suc (Suc 0)) example_env
       (example_installed (init True False None (PyStr ''A'')) ''x'') ''x'' False) ''x''
     = Some \<lparr> git_sha = Some ''v2'', entry_installed_by = {''A'', ''B''} \<rparr>"
  by (simp add: eval_more insert_commute)

subsection \<open>A failed download leaves the lockfile alone\<close>

text \<open>
  Claim C3: for every install request that reaches the download and whose files cannot
  be fetched, \<open>install\<close> returns \<open>False\<close>, for every amount of fuel, and the persisted
  lockfile is the one the request found. This covers the requests with \<open>force\<close> set:
  the entry that the forced removal takes out of the \<open>ModulesJson\<close> object is not taken
  out of the file.
\<close>

theorem failed_download_keeps_lockfile:
  assumes "dir_ok E" and "verify_sha E (prompt (self st)) (sha (self st))"
    and "collect_and_verify_name E sw = Some n" and "n \<noteq> []"
    and "check_component_installed
           (get_subworkflow_version (check_up_to_date E (disk st) (modules_json_file st)) n)
           (disk st (os_path_join (install_folder E) n) \<noteq> None) (force (self st))"
    and "get_version E n (sha (self st)) (prompt (self st))
           (get_subworkflow_version (check_up_to_date E (disk st) (modules_json_file st)) n) = Some v"
    and "v \<noteq> []"
    and "registry E n v = None"
  shows "\<exists>st'. install (Suc k) E st sw silent = Some (Inr (False, st'))
           \<and> modules_json_file st' = modules_json_file st"
proof -
  let ?mj = "check_up_to_date E (disk st) (modules_json_file st)"
  let ?cv = "get_subworkflow_version ?mj n"
  let ?d = "os_path_join (install_folder E) n"
  let ?st3 = "log [EvCurrentVersion n ?cv, EvPresenceCheck n True, EvVersionResolved n (Some v)] st"
  have b: "begin_install E st sw = Inr (n, ?d, ?cv, ?mj, v, ?st3)"
    using begin_install_proceeds[OF assms(1-7)] .
  obtain f t st5 where dl: "download E ?st3 n ?d ?cv ?mj v = (f, t, st5)"
    by (cases "download E ?st3 n ?d ?cv ?mj v") auto
  from download_facts(4)[OF dl] assms(8) have "\<not> f" by simp
  with install_Suc_Inr[OF b dl] have "install (Suc k) E st sw silent = Some (Inr (False, st5))"
    by simp
  moreover from download_facts(2)[OF dl] have "modules_json_file st5 = modules_json_file st"
    by simp
  ultimately show ?thesis by blast
qed

text \<open>
  A forced reinstall of \<open>gone\<close>, whose files cannot be fetched: the request fails and
  the entry of \<open>gone\<close> is still in the lockfile, as it was.
\<close>

theorem failed_download_keeps_lockfile_witness:
  "force (self (example_installed (init True False None (PyStr ''A'')) ''gone''))
   \<and> registry example_env ''gone'' ''v2'' = None
   \<and> run_result (install (Suc 0) example_env
        (example_installed (init True False None (PyStr ''A'')) ''gone'') ''gone'' False) = Some False
   \<and> run_entry (install (Suc 0) example_env
        (example_installed (init True False None (PyStr ''A'')) ''gone'') ''gone'' False) ''gone''
       = Some \<lparr> git_sha = Some ''v1'', entry_installed_by = {''A'', ''B''} \<rparr>"
proof -
  let ?st = "example_installed (init True False None (PyStr ''A'')) ''gone''"
  have h: "dir_ok example_env" "verify_sha example_env (prompt (self ?st)) (sha (self ?st))"
    "collect_and_verify_name example_env ''gone'' = Some ''gone''" "''gone'' \<noteq> []"
    "check_component_installed
       (get_subworkflow_version (check_up_to_date example_env (disk ?st) (modules_json_file ?st)) ''gone'')
       (disk ?st (os_path_join (install_folder example_env) ''gone'') \<noteq> None) (force (self ?st))"
    "get_version example_env ''gone'' (sha (self ?st)) (prompt (self ?st))
       (get_subworkflow_version (check_up_to_date example_env (disk ?st) (modules_json_file ?st)) ''gone'')
       = Some ''v2''"
    "''v2'' \<noteq> []"
    "registry example_env ''gone'' ''v2'' = None"
    by (simp_all add: eval_more)
  from failed_download_keeps_lockfile[OF h, of 0 False] obtain st' where
    run: "install (Suc 0) example_env ?st ''gone'' False = Some (Inr (False, st'))"
    and keep: "modules_json_file st' = modules_json_file ?st"
    by blast
  have "force (self ?st)" by (simp add: eval_more)
  moreover have "modules_json_file ?st ''gone''
       = Some \<lparr> git_sha = Some ''v1'', entry_installed_by = {''A'', ''B''} \<rparr>"
    by (simp add: eval_more)
  ultimately show ?thesis using run keep h(8) by (simp add: run_result_def run_entry_def)
qed

subsection \<open>A removal that fails\<close>

text \<open>
  Claim C4 asks that a forced reinstall whose removal of the existing files fails aborts
  and leaves the lockfile as it was. The source calls \<open>clear_component_dir\<close> and drops
  its result: on the project whose directories cannot be removed, the forced reinstall
  of \<open>bar\<close> goes on after the failed removal, downloads \<open>bar\<close> and writes its entry at
  the new version, and returns \<open>True\<close>.
\<close>

theorem removal_failure_is_ignored:
  "run_result (install (Suc 0) stuck_env
       (example_installed (init True False None (PyStr ''A'')) ''bar'') ''bar'' False) = Some True
   \<and> run_trace (install (Suc 0) stuck_env
       (example_installed (init True False None (PyStr ''A'')) ''bar'') ''bar'' False)
     = [EvCurrentVersion ''bar'' (Some ''v1''), EvPresenceCheck ''bar'' True,
        EvVersionResolved ''bar'' (Some ''v2''), EvPresenceCheck ''bar'' True,
        EvRemove ''bar'' False, EvCleanEntry ''bar'' (Some {''A'', ''B''}),
        EvMaterialize ''bar'' ''v2'' True, EvGuidance ''bar'',
        EvUpdateSubworkflow ''bar'' ''v2'' ''A'' (Some {''A'', ''B''})]
   \<and> run_entry (install (Suc 0) stuck_env
       (example_installed (init True False None (PyStr ''A'')) ''bar'') ''bar'' False) ''bar''
     = Some \<lparr> git_sha = Some ''v2'', entry_installed_by = {''A'', ''B''} \<rparr>"
  by (simp add: eval_more insert_commute)

subsection \<open>The order of presence check and version resolution\<close>

text \<open>
  Claim C6, as the spec states it, has the target version resolved before the presence
  check. On a project with nothing installed, the first of the two steps in the
  request for \<open>x\<close> is the presence check.
\<close>

theorem presence_check_comes_first:
  "\<not> resolved_before_presence
        (run_trace (install (Suc (Suc 0)) example_env (fresh (init False False None PyFalse)) ''x'' False))
   \<and> first_decision
        (run_trace (install (Suc (Suc 0)) example_env (fresh (init False False None PyFalse)) ''x'' False))
       = Some (EvPresenceCheck ''x'' True)"
  by (simp add: eval_more resolved_before_presence_def)

text \<open>
  Claim C6, amended: for every install request that passes the directory check, the
  check of the revision and the name lookup and that returns, the presence check that
  decides the already-installed short-circuit is the first of the two steps, before any
  resolution of the target version; and when it decides for the short-circuit, the
  request resolves no target version at all.
\<close>

theorem presence_check_before_version_resolution:
  assumes run: "install (Suc k) E st sw silent = Some (Inr (r, st'))"
    and ok: "dir_ok E" "verify_sha E (prompt (self st)) (sha (self st))"
    and name: "collect_and_verify_name E sw = Some n" "n \<noteq> []"
  shows "\<exists>p. first_decision (new_events st st') = Some (EvPresenceCheck n p)
           \<and> (\<not> p \<longrightarrow> (\<forall>e \<in> set (new_events st st'). \<not> is_version_resolved e))"
  using run
proof (cases rule: install_cases)
  case (early k')
  from begin_install_Inl_events[OF early(2) ok name] show ?thesis
    by auto
next
  case (nofetch k' n' d cv mj v st3 track)
  note b = begin_install_Inr[OF nofetch(2)]
  from b(2) name have n: "n' = n" by simp
  from download_own[OF nofetch(3)] obtain es where
    "trace st' = trace st3 @ es @ [EvMaterialize n' v False]" by blast
  with b(1) n have "new_events st st' =
      [EvCurrentVersion n cv, EvPresenceCheck n True, EvVersionResolved n (Some v)]
        @ es @ [EvMaterialize n v False]"
    by (simp add: new_events_def)
  then show ?thesis by (intro exI[of _ True]) simp
next
  case (full k' n' d cv mj v st3 track st5 st6)
  note b = begin_install_Inr[OF full(2)]
  from b(2) name have n: "n' = n" by simp
  from download_own[OF full(3)] obtain es where
    es: "trace st5 = trace st3 @ es @ [EvMaterialize n' v True]" by blast
  from included_trace[OF full(4)] obtain deps where deps: "trace st6 = trace st5 @ deps" by blast
  from full(5) deps es b(1) n obtain rest where "new_events st st' =
      [EvCurrentVersion n cv, EvPresenceCheck n True, EvVersionResolved n (Some v)] @ rest"
    by (simp add: new_events_def)
  then show ?thesis by (intro exI[of _ True]) simp
qed

text \<open>
  The request for \<open>x\<close> on the project where \<open>x\<close> is installed: the presence check
  decides for the short-circuit and no version is resolved.
\<close>

theorem presence_check_before_version_resolution_witness:
  "\<exists>st'. install (Suc 0) example_env
            (example_installed (init False False None (PyStr ''C'')) ''x'') ''x'' False
           = Some (Inr (False, st'))
         \<and> first_decision (new_events (example_installed (init False False None (PyStr ''C'')) ''x'') st')
             = Some (EvPresenceCheck ''x'' False)
         \<and> (\<forall>e \<in> set (new_events (example_installed (init False False None (PyStr ''C'')) ''x'') st').
               \<not> is_version_resolved e)"
proof -
  let ?st = "example_installed (init False False None (PyStr ''C'')) ''x''"
  have "\<exists>st'. install (Suc 0) example_env ?st ''x'' False = Some (Inr (False, st'))"
    by (simp add: eval_more)
  then obtain st' where run: "install (Suc 0) example_env ?st ''x'' False = Some (Inr (False, st'))"
    by blast
  have h: "dir_ok example_env" "verify_sha example_env (prompt (self ?st)) (sha (self ?st))"
    "collect_and_verify_name example_env ''x'' = Some ''x''" "''x'' \<noteq> []"
    by (simp_all add: example_env_def)
  from presence_check_before_version_resolution[OF run h] obtain p where
    p: "first_decision (new_events ?st st') = Some (EvPresenceCheck ''x'' p)"
       "\<not> p \<longrightarrow> (\<forall>e \<in> set (new_events ?st st'). \<not> is_version_resolved e)"
    by blast
  have "EvPresenceCheck ''x'' True \<notin> set (trace st')"
    using run by (auto simp: eval_more)
  moreover have "EvPresenceCheck ''x'' p \<in> set (trace st')"
  proof -
    have "\<And>es e. first_decision es = Some e \<Longrightarrow> e \<in> set es"
      subgoal for es e by (induction es) (auto split: if_splits)
      done
    from this[OF p(1)] show ?thesis
      by (auto simp: new_events_def dest: in_set_dropD)
  qed
  ultimately have "p = False" by (cases p) auto
  with p run show ?thesis by (intro exI[of _ st']) simp
qed

subsection \<open>The classification of the include lines\<close>

text \<open>
  Claim C5: the dependency scan returns, in the order of the lines, what each line
  contributes by the rule of section 4.3, and the rule is met on the lines themselves.
  For a line that is an include statement, a symbol of letters, digits and underscores
  between braces bound from a quoted path: when the path starts with \<open>../../../\<close>
  the line contributes a module, named by the lower-cased symbol with every underscore
  turned into \<open>/\<close> (its underscore-separated parts joined by \<open>/\<close>); when the path
  otherwise starts with \<open>../\<close> it contributes a subworkflow, named by the lower-cased
  symbol; with any other path it contributes nothing. A line that does not start with
  \<open>include\<close> contributes nothing. The names are stated by \<open>module_dependency_name\<close>
  and \<open>subworkflow_dependency_name\<close>, which lower-case by the table of the letters and
  use neither \<open>split\<close> nor \<open>join\<close>.
\<close>

theorem dependency_classification:
  "get_modules_subworkflows_to_install main_nf =
     (concat (map line_modules main_nf), concat (map line_subworkflows main_nf))
   \<and> (\<forall>symbol link rest.
          symbol \<noteq> [] \<and> (\<forall>c \<in> set symbol. is_word c) \<and> newline \<notin> set link
          \<and> squote \<notin> set rest \<and> dquote \<notin> set rest \<longrightarrow>
            line_modules (include_statement symbol link rest) =
              (if begins_with ''../../../'' link then [module_dependency_name symbol] else [])
          \<and> line_subworkflows (include_statement symbol link rest) =
              (if \<not> begins_with ''../../../'' link \<and> begins_with ''../'' link
               then [subworkflow_dependency_name symbol] else []))
   \<and> (\<forall>line. \<not> begins_with ''include'' line \<longrightarrow>
          line_modules line = [] \<and> line_subworkflows line = [])"
proof (intro conjI allI impI)
  show "get_modules_subworkflows_to_install main_nf =
     (concat (map line_modules main_nf), concat (map line_subworkflows main_nf))"
    by (simp add: get_modules_subworkflows_to_install_def scan_lines_acc)
next
  fix symbol link rest
  assume "symbol \<noteq> [] \<and> (\<forall>c \<in> set symbol. is_word c) \<and> newline \<notin> set link
          \<and> squote \<notin> set rest \<and> dquote \<notin> set rest"
  then have m: "re_match (include_statement symbol link rest) = Some (symbol, link)"
    by (intro re_match_include_statement) simp_all
  show "line_modules (include_statement symbol link rest) =
              (if begins_with ''../../../'' link then [module_dependency_name symbol] else [])"
    by (simp add: line_modules_def m)
  show "line_subworkflows (include_statement symbol link rest) =
              (if \<not> begins_with ''../../../'' link \<and> begins_with ''../'' link
               then [subworkflow_dependency_name symbol] else [])"
    by (simp add: line_subworkflows_def m)
next
  fix line
  assume "\<not> begins_with ''include'' line"
  then have m: "re_match line = None" by (rule re_match_no_include)
  show "line_modules line = []" by (simp add: line_modules_def m)
  show "line_subworkflows line = []" by (simp add: line_subworkflows_def m)
qed

text \<open>
  A \<open>main.nf\<close> with a module whose symbol has an underscore, a line that is no include
  statement, a subworkflow whose symbol has underscores, an include from a local path
  and the two lines of the example of section 8; and the lower-casing of the letters.
\<close>

theorem dependency_classification_witness:
  "get_modules_subworkflows_to_install
     [include_statement ''SAMTOOLS_SORT'' ''../../../modules/nf-core/samtools/sort/main'' [newline],
      ''workflow BAM_SORT {'',
      include_statement ''BAM_STATS_SAMTOOLS'' ''../bam_stats_samtools/main'' [newline],
      include_statement ''LOCAL_STEP'' ''./local/main'' [newline],
      include_statement ''FOO'' ''../../../modules/nf-core/foo/main'' [newline],
      include_statement ''BAR'' ''../bar/main'' [newline]]
     = ([''samtools/sort'', ''foo''], [''bam_stats_samtools'', ''bar''])
   \<and> include_foo = include_statement ''FOO'' ''../../../modules/nf-core/foo/main'' [newline]
   \<and> include_bar = include_statement ''BAR'' ''../bar/main'' [newline]
   \<and> line_modules ''workflow BAM_SORT {'' = []
   \<and> line_subworkflows ''workflow BAM_SORT {'' = []
   \<and> map ascii_lower ''ABCDEFGHIJKLMNOPQRSTUVWXYZ_az09/'' = ''abcdefghijklmnopqrstuvwxyz_az09/''"
proof -
  note dc = dependency_classification
  let ?a = "include_statement ''SAMTOOLS_SORT'' ''../../../modules/nf-core/samtools/sort/main'' [newline]"
  let ?b = "include_statement ''BAM_STATS_SAMTOOLS'' ''../bam_stats_samtools/main'' [newline]"
  let ?c = "include_statement ''LOCAL_STEP'' ''./local/main'' [newline]"
  let ?d = "include_statement ''FOO'' ''../../../modules/nf-core/foo/main'' [newline]"
  let ?e = "include_statement ''BAR'' ''../bar/main'' [newline]"
  let ?w = "''workflow BAM_SORT {''"
  have a: "line_modules ?a = [''samtools/sort'']" "line_subworkflows ?a = []"
    using dc[THEN conjunct2, THEN conjunct1, rule_format,
        of "''SAMTOOLS_SORT''" "''../../../modules/nf-core/samtools/sort/main''" "[newline]"]
    by (simp_all add: char_defs begins_with_def module_dependency_name_def ascii_lower_def)
  have b: "line_modules ?b = []" "line_subworkflows ?b = [''bam_stats_samtools'']"
    using dc[THEN conjunct2, THEN conjunct1, rule_format,
        of "''BAM_STATS_SAMTOOLS''" "''../bam_stats_samtools/main''" "[newline]"]
    by (simp_all add: char_defs begins_with_def subworkflow_dependency_name_def ascii_lower_def)
  have c: "line_modules ?c = []" "line_subworkflows ?c = []"
    using dc[THEN conjunct2, THEN conjunct1, rule_format,
        of "''LOCAL_STEP''" "''./local/main''" "[newline]"]
    by (simp_all add: char_defs begins_with_def)
  have d: "line_modules ?d = [''foo'']" "line_subworkflows ?d = []"
    using dc[THEN conjunct2, THEN conjunct1, rule_format,
        of "''FOO''" "''../../../modules/nf-core/foo/main''" "[newline]"]
    by (simp_all add: char_defs begins_with_def module_dependency_name_def ascii_lower_def)
  have e: "line_modules ?e = []" "line_subworkflows ?e = [''bar'']"
    using dc[THEN conjunct2, THEN conjunct1, rule_format,
        of "''BAR''" "''../bar/main''" "[newline]"]
    by (simp_all add: char_defs begins_with_def subworkflow_dependency_name_def ascii_lower_def)
  have w: "line_modules ?w = []" "line_subworkflows ?w = []"
    using dc[THEN conjunct2, THEN conjunct2, rule_format, of ?w]
    by (simp_all add: begins_with_def)
  have scan: "get_modules_subworkflows_to_install [?a, ?w, ?b, ?c, ?d, ?e]
     = ([''samtools/sort'', ''foo''], [''bam_stats_samtools'', ''bar''])"
    using dc[THEN conjunct1, of "[?a, ?w, ?b, ?c, ?d, ?e]"]
    by (simp add: a b c d e w)
  have f: "include_foo = ?d" "include_bar = ?e"
    by (simp_all add: include_foo_def include_bar_def include_statement_def)
  have l: "map ascii_lower ''ABCDEFGHIJKLMNOPQRSTUVWXYZ_az09/'' = ''abcdefghijklmnopqrstuvwxyz_az09/''"
    by (simp add: ascii_lower_def)
  from scan f w l show ?thesis by simp
qed

subsection \<open>The dependencies are installed between the download and the lockfile update\<close>

text \<open>
  Claim C7: for every install request that reaches the download (the directory, the
  revision and the name are accepted, the presence check says to install and a target
  version is resolved), whatever it returns. The events up to the download are the
  request's own steps, and the persisted lockfile is untouched when the download is
  over. When the files cannot be fetched the request returns \<open>False\<close> in that state:
  no dependency is installed and no entry is written. When they are fetched they are
  all on disk before the first dependency install starts, and with the modules and
  subworkflows that the scan discovers in the \<open>main.nf\<close> just written: the request
  does not return when the silent installs of the discovered subworkflows, one after
  the other, do not return; it raises what they raise; and when they have all returned,
  the events of the request are, in this order, the download, the events of those
  installs and of what they recursed into, the hand-over of every discovered module to
  the module installer, the guidance unless the call is silent, and last the write of
  the parent's own lockfile entry, onto the lockfile that the dependency installs left.
\<close>

theorem dependencies_between_download_and_lockfile_update:
  assumes "dir_ok E" and "verify_sha E (prompt (self st)) (sha (self st))"
    and "collect_and_verify_name E sw = Some n" and "n \<noteq> []"
    and "check_component_installed
           (get_subworkflow_version (check_up_to_date E (disk st) (modules_json_file st)) n)
           (disk st (os_path_join (install_folder E) n) \<noteq> None) (force (self st))"
    and "get_version E n (sha (self st)) (prompt (self st))
           (get_subworkflow_version (check_up_to_date E (disk st) (modules_json_file st)) n) = Some v"
    and "v \<noteq> []"
    and "d = os_path_join (install_folder E) n" and "path_parts d \<noteq> []"
    and "c = last (path_parts d)"
  shows "\<exists>st5 pre track.
           trace st5 = trace st @ pre @ [EvMaterialize n v (registry E n v \<noteq> None)]
         \<and> (\<forall>e \<in> set pre. own_step n e)
         \<and> modules_json_file st5 = modules_json_file st
         \<and> self st5 = self st
         \<and> (registry E n v = None \<longrightarrow> install (Suc k) E st sw silent = Some (Inr (False, st5)))
         \<and> (registry E n v = Some None \<longrightarrow>
               install (Suc k) E st sw silent = Some (Inl FileNotFoundError))
         \<and> (\<forall>main_nf mods subs.
               registry E n v = Some (Some main_nf)
               \<and> get_modules_subworkflows_to_install main_nf = (mods, subs) \<longrightarrow>
                 disk st5 d = Some (Some main_nf)
               \<and> (recurse_silently k E c st5 subs = None \<longrightarrow>
                    install (Suc k) E st sw silent = None)
               \<and> (\<forall>e. recurse_silently k E c st5 subs = Some (Inl e) \<longrightarrow>
                    install (Suc k) E st sw silent = Some (Inl e))
               \<and> (\<forall>st1. recurse_silently k E c st5 subs = Some (Inr st1) \<longrightarrow>
                    (\<exists>st' es.
                        install (Suc k) E st sw silent = Some (Inr (True, st'))
                      \<and> trace st1 = trace st5 @ es
                      \<and> trace st' =
                          trace st1
                          @ map (\<lambda>m. EvModuleInstall m (force (self st)) (prompt (self st))
                                       (sha (self st)) c) mods
                          @ (if silent then [] else [EvGuidance n])
                          @ [EvUpdateSubworkflow n v (installed_by (self st)) track]
                      \<and> modules_json_file st' =
                          update_entry (modules_json_file st1) n (Some v)
                            (installed_by (self st)) track)))"
proof -
  let ?mj = "check_up_to_date E (disk st) (modules_json_file st)"
  let ?cv = "get_subworkflow_version ?mj n"
  let ?st3 = "log [EvCurrentVersion n ?cv, EvPresenceCheck n True, EvVersionResolved n (Some v)] st"
  let ?run = "install (Suc k) E st sw silent"
  have b: "begin_install E st sw = Inr (n, d, ?cv, ?mj, v, ?st3)"
    using begin_install_proceeds[OF assms(1-7)] assms(8) by simp
  obtain f track st5 where dl: "download E ?st3 n d ?cv ?mj v = (f, track, st5)"
    by (cases "download E ?st3 n d ?cv ?mj v") auto
  note run = install_Suc_Inr[OF b dl, of k silent]
  from download_facts(4)[OF dl] have f: "f = (registry E n v \<noteq> None)" .
  from download_own[OF dl] obtain es where
    es: "trace st5 = trace ?st3 @ es @ [EvMaterialize n v f]" "\<forall>e \<in> set es. own_step n e"
    by blast
  let ?pre = "[EvCurrentVersion n ?cv, EvPresenceCheck n True, EvVersionResolved n (Some v)] @ es"
  have t5: "trace st5 = trace st @ ?pre @ [EvMaterialize n v (registry E n v \<noteq> None)]"
    using es(1) f by simp
  have own: "\<forall>e \<in> set ?pre. own_step n e"
    using es(2) by simp
  have lf: "modules_json_file st5 = modules_json_file st"
    using download_facts(2)[OF dl] by simp
  have self5: "self st5 = self st"
    using download_facts(1)[OF dl] by simp
  have fail: "registry E n v = None \<longrightarrow> ?run = Some (Inr (False, st5))"
    using run f by simp
  have nofile: "registry E n v = Some None \<longrightarrow> ?run = Some (Inl FileNotFoundError)"
  proof
    assume r: "registry E n v = Some None"
    with f download_facts(5)[OF dl] have "f" "disk st5 d = Some None" by simp_all
    then show "?run = Some (Inl FileNotFoundError)"
      using run by (simp add: install_included_components.simps)
  qed
  have deps: "disk st5 d = Some (Some main_nf)
               \<and> (recurse_silently k E c st5 subs = None \<longrightarrow> ?run = None)
               \<and> (\<forall>e. recurse_silently k E c st5 subs = Some (Inl e) \<longrightarrow> ?run = Some (Inl e))
               \<and> (\<forall>st1. recurse_silently k E c st5 subs = Some (Inr st1) \<longrightarrow>
                    (\<exists>st' es.
                        ?run = Some (Inr (True, st'))
                      \<and> trace st1 = trace st5 @ es
                      \<and> trace st' =
                          trace st1
                          @ map (\<lambda>m. EvModuleInstall m (force (self st)) (prompt (self st))
                                       (sha (self st)) c) mods
                          @ (if silent then [] else [EvGuidance n])
                          @ [EvUpdateSubworkflow n v (installed_by (self st)) track]
                      \<and> modules_json_file st' =
                          update_entry (modules_json_file st1) n (Some v)
                            (installed_by (self st)) track))"
    if r: "registry E n v = Some (Some main_nf)"
      and scan: "get_modules_subworkflows_to_install main_nf = (mods, subs)"
    for main_nf mods subs
  proof -
    from r f download_facts(5)[OF dl] have ff: "f" and d5: "disk st5 d = Some (Some main_nf)"
      by simp_all
    note inc = install_included_components_recurse[OF assms(9) d5 scan, of k E, folded assms(10)]
    have none: "recurse_silently k E c st5 subs = None \<longrightarrow> ?run = None"
      using run ff inc by simp
    have err: "\<forall>e. recurse_silently k E c st5 subs = Some (Inl e) \<longrightarrow> ?run = Some (Inl e)"
      using run ff inc by simp
    have ok: "\<exists>st' es.
                        ?run = Some (Inr (True, st'))
                      \<and> trace st1 = trace st5 @ es
                      \<and> trace st' =
                          trace st1
                          @ map (\<lambda>m. EvModuleInstall m (force (self st)) (prompt (self st))
                                       (sha (self st)) c) mods
                          @ (if silent then [] else [EvGuidance n])
                          @ [EvUpdateSubworkflow n v (installed_by (self st)) track]
                      \<and> modules_json_file st' =
                          update_entry (modules_json_file st1) n (Some v)
                            (installed_by (self st)) track"
      if rs: "recurse_silently k E c st5 subs = Some (Inr st1)" for st1
    proof -
      from rs assms(10) have rs': "recurse_silently k E (last (path_parts d)) st5 subs = Some (Inr st1)"
        by simp
      from recurse_silently_facts[OF assms(9) rs'] self5 obtain es' where
        s1: "self st1 = self st" and t1: "trace st1 = trace st5 @ es'"
        by auto
      let ?st6 = "delegate_modules c st1 mods"
      let ?st' = "finish_install ?st6 n v track silent"
      have "?run = Some (Inr (True, ?st'))"
        using run ff inc rs by simp
      moreover have "trace ?st' = trace st1
                          @ map (\<lambda>m. EvModuleInstall m (force (self st)) (prompt (self st))
                                       (sha (self st)) c) mods
                          @ (if silent then [] else [EvGuidance n])
                          @ [EvUpdateSubworkflow n v (installed_by (self st)) track]"
        using s1 by (simp add: delegate_modules_def)
      moreover have "modules_json_file ?st' =
                          update_entry (modules_json_file st1) n (Some v)
                            (installed_by (self st)) track"
        using s1 by (simp add: delegate_modules_def)
      ultimately show ?thesis using t1 by blast
    qed
    from d5 none err ok show ?thesis by blast
  qed
  from t5 own lf self5 fail nofile deps show ?thesis
    by (intro exI[of _ st5] exI[of _ ?pre] exI[of _ track]) blast
qed

text \<open>
  The request for \<open>x\<close> on a project with nothing installed: \<open>x\<close> is downloaded,
  then the subworkflow \<open>bar\<close> is installed and its entry written, then the module
  \<open>foo\<close> is handed over, and only then the entry of \<open>x\<close> is written.
\<close>

theorem dependencies_between_download_and_lockfile_update_witness:
  "get_modules_subworkflows_to_install [include_foo, include_bar] = ([''foo''], [''bar''])
   \<and> run_trace (install (Suc (Suc 0)) example_env (fresh (init False False None PyFalse)) ''x'' False)
       = [EvCurrentVersion ''x'' None, EvPresenceCheck ''x'' True,
          EvVersionResolved ''x'' (Some ''v2''), EvMaterialize ''x'' ''v2'' True,
          EvCurrentVersion ''bar'' None, EvPresenceCheck ''bar'' True,
          EvVersionResolved ''bar'' (Some ''v2''), EvMaterialize ''bar'' ''v2'' True,
          EvUpdateSubworkflow ''bar'' ''v2'' ''x'' None,
          EvModuleInstall ''foo'' False False None ''x'',
          EvGuidance ''x'', EvUpdateSubworkflow ''x'' ''v2'' ''subworkflows'' None]
   \<and> (\<exists>st5 pre st1 es st' track.
          trace st5 = pre @ [EvMaterialize ''x'' ''v2'' True]
        \<and> (\<forall>e \<in> set pre. own_step ''x'' e)
        \<and> modules_json_file st5 = Map.empty
        \<and> disk st5 ''subworkflows/nf-core/x'' = Some (Some [include_foo, include_bar])
        \<and> recurse_silently (Suc 0) example_env ''x'' st5 [''bar''] = Some (Inr st1)
        \<and> trace st1 = trace st5 @ es
        \<and> install (Suc (Suc 0)) example_env (fresh (init False False None PyFalse)) ''x'' False
            = Some (Inr (True, st'))
        \<and> trace st' = trace st1 @ [EvModuleInstall ''foo'' False False None ''x'', EvGuidance ''x'',
                                     EvUpdateSubworkflow ''x'' ''v2'' ''subworkflows'' track])"
proof -
  let ?st = "fresh (init False False None PyFalse)"
  let ?run = "install (Suc (Suc 0)) example_env ?st ''x'' False"
  let ?d = "''subworkflows/nf-core/x''"
  have h: "dir_ok example_env" "verify_sha example_env (prompt (self ?st)) (sha (self ?st))"
    "collect_and_verify_name example_env ''x'' = Some ''x''" "''x'' \<noteq> []"
    "check_component_installed
       (get_subworkflow_version (check_up_to_date example_env (disk ?st) (modules_json_file ?st)) ''x'')
       (disk ?st (os_path_join (install_folder example_env) ''x'') \<noteq> None) (force (self ?st))"
    "get_version example_env ''x'' (sha (self ?st)) (prompt (self ?st))
       (get_subworkflow_version (check_up_to_date example_env (disk ?st) (modules_json_file ?st)) ''x'')
       = Some ''v2''"
    "''v2'' \<noteq> []"
    "?d = os_path_join (install_folder example_env) ''x''"
    "path_parts ?d \<noteq> []"
    "''x'' = last (path_parts ?d)"
    by (simp_all add: eval_more)
  have reg: "registry example_env ''x'' ''v2'' = Some (Some [include_foo, include_bar])"
    by (simp add: example_env_def)
  have scan: "get_modules_subworkflows_to_install [include_foo, include_bar] = ([''foo''], [''bar''])"
    by (rule scan_example)
  have tr: "run_trace ?run
       = [EvCurrentVersion ''x'' None, EvPresenceCheck ''x'' True,
          EvVersionResolved ''x'' (Some ''v2''), EvMaterialize ''x'' ''v2'' True,
          EvCurrentVersion ''bar'' None, EvPresenceCheck ''bar'' True,
          EvVersionResolved ''bar'' (Some ''v2''), EvMaterialize ''bar'' ''v2'' True,
          EvUpdateSubworkflow ''bar'' ''v2'' ''x'' None,
          EvModuleInstall ''foo'' False False None ''x'',
          EvGuidance ''x'', EvUpdateSubworkflow ''x'' ''v2'' ''subworkflows'' None]"
    by (simp add: eval_more)
  have ret: "\<exists>st'. ?run = Some (Inr (True, st'))"
    by (simp add: eval_more)
  from dependencies_between_download_and_lockfile_update[OF h, of "Suc 0" False]
  obtain st5 pre track where
    t5: "trace st5 = trace ?st @ pre @ [EvMaterialize ''x'' ''v2'' (registry example_env ''x'' ''v2'' \<noteq> None)]"
    and own: "\<forall>e \<in> set pre. own_step ''x'' e"
    and lf: "modules_json_file st5 = modules_json_file ?st"
    and deps: "\<forall>main_nf mods subs.
               registry example_env ''x'' ''v2'' = Some (Some main_nf)
               \<and> get_modules_subworkflows_to_install main_nf = (mods, subs) \<longrightarrow>
                 disk st5 ?d = Some (Some main_nf)
               \<and> (recurse_silently (Suc 0) example_env ''x'' st5 subs = None \<longrightarrow> ?run = None)
               \<and> (\<forall>e. recurse_silently (Suc 0) example_env ''x'' st5 subs = Some (Inl e) \<longrightarrow>
                    ?run = Some (Inl e))
               \<and> (\<forall>st1. recurse_silently (Suc 0) example_env ''x'' st5 subs = Some (Inr st1) \<longrightarrow>
                    (\<exists>st' es.
                        ?run = Some (Inr (True, st'))
                      \<and> trace st1 = trace st5 @ es
                      \<and> trace st' =
                          trace st1
                          @ map (\<lambda>m. EvModuleInstall m (force (self ?st)) (prompt (self ?st))
                                       (sha (self ?st)) ''x'') mods
                          @ (if False then [] else [EvGuidance ''x''])
                          @ [EvUpdateSubworkflow ''x'' ''v2'' (installed_by (self ?st)) track]
                      \<and> modules_json_file st' =
                          update_entry (modules_json_file st1) ''x'' (Some ''v2'')
                            (installed_by (self ?st)) track))"
    by blast
  from deps reg scan have
    d5: "disk st5 ?d = Some (Some [include_foo, include_bar])"
    and none: "recurse_silently (Suc 0) example_env ''x'' st5 [''bar''] = None \<longrightarrow> ?run = None"
    and err: "\<forall>e. recurse_silently (Suc 0) example_env ''x'' st5 [''bar''] = Some (Inl e) \<longrightarrow>
                    ?run = Some (Inl e)"
    and ok: "\<forall>st1. recurse_silently (Suc 0) example_env ''x'' st5 [''bar''] = Some (Inr st1) \<longrightarrow>
                    (\<exists>st' es.
                        ?run = Some (Inr (True, st'))
                      \<and> trace st1 = trace st5 @ es
                      \<and> trace st' =
                          trace st1
                          @ map (\<lambda>m. EvModuleInstall m (force (self ?st)) (prompt (self ?st))
                                       (sha (self ?st)) ''x'') [''foo'']
                          @ (if False then [] else [EvGuidance ''x''])
                          @ [EvUpdateSubworkflow ''x'' ''v2'' (installed_by (self ?st)) track])"
    by blast+
  define R where "R = recurse_silently (Suc 0) example_env ''x'' st5 [''bar'']"
  from ret obtain st0 where r0: "?run = Some (Inr (True, st0))" by blast
  have "R \<noteq> None" "\<forall>e. R \<noteq> Some (Inl e)"
    using none err r0 unfolding R_def by auto
  then obtain st1 where "R = Some (Inr st1)"
    by (cases R) (auto intro: sum.exhaust)
  then have rs: "recurse_silently (Suc 0) example_env ''x'' st5 [''bar''] = Some (Inr st1)"
    unfolding R_def .
  from ok rs obtain st' es where
    run: "?run = Some (Inr (True, st'))" and t1: "trace st1 = trace st5 @ es"
    and t': "trace st' =
                          trace st1
                          @ map (\<lambda>m. EvModuleInstall m (force (self ?st)) (prompt (self ?st))
                                       (sha (self ?st)) ''x'') [''foo'']
                          @ (if False then [] else [EvGuidance ''x''])
                          @ [EvUpdateSubworkflow ''x'' ''v2'' (installed_by (self ?st)) track]"
    by blast
  have t5': "trace st5 = pre @ [EvMaterialize ''x'' ''v2'' True]"
    using t5 reg by (simp add: fresh_def)
  have lf': "modules_json_file st5 = Map.empty"
    using lf by (simp add: fresh_def)
  have t'': "trace st' = trace st1 @ [EvModuleInstall ''foo'' False False None ''x'', EvGuidance ''x'',
                                     EvUpdateSubworkflow ''x'' ''v2'' ''subworkflows'' track]"
    using t' by (simp add: fresh_def init_def Let_def)
  from t5' own lf' d5 rs t1 run t'' have
    "\<exists>st5 pre st1 es st' track.
          trace st5 = pre @ [EvMaterialize ''x'' ''v2'' True]
        \<and> (\<forall>e \<in> set pre. own_step ''x'' e)
        \<and> modules_json_file st5 = Map.empty
        \<and> disk st5 ''subworkflows/nf-core/x'' = Some (Some [include_foo, include_bar])
        \<and> recurse_silently (Suc 0) example_env ''x'' st5 [''bar''] = Some (Inr st1)
        \<and> trace st1 = trace st5 @ es
        \<and> ?run = Some (Inr (True, st'))
        \<and> trace st' = trace st1 @ [EvModuleInstall ''foo'' False False None ''x'', EvGuidance ''x'',
                                     EvUpdateSubworkflow ''x'' ''v2'' ''subworkflows'' track]"
    by blast
  with scan tr show ?thesis by blast
qed

subsection \<open>How the dependencies are installed\<close>




subsection \<open>The referrer of an installer built without \<open>installed_by\<close>\<close>





end
